theory Spec2Isabelle
  imports Main "HOL-Library.Word" "HOL-Library.Product_Lexorder" "HOL-Library.Sublist"
begin

unbundle bit_operations_syntax

section \<open>Python values\<close>

text \<open>
  A Python \<open>str\<close> is a sequence of Unicode code points, a \<open>bytes\<close> object a sequence of
  octets. Code points are natural numbers; \<open>py_str\<close> turns an ASCII literal of the source
  into the code points it denotes.
\<close>

type_synonym str = "nat list"
type_synonym byte = "8 word"
type_synonym bytes = "byte list"

definition py_str :: "string \<Rightarrow> str" where
  "py_str s = map of_char s"

section \<open>The listing\<close>

text \<open>
  The dict that \<open>parse_list_server\<close> returns and \<open>update_server_info\<close> reads with
  \<open>dict.get\<close>: a key that is absent reads as \<open>None\<close>.
\<close>

record server_info =
  name :: "str option"
  info :: "str option"
  news :: "str option"
  players :: "int option"
  max_players :: "int option"
  icon :: "bytes option"

section \<open>Exceptions\<close>

text \<open>
  The exceptions the modelled code can raise. \<open>ValueError\<close> carries its message;
  \<open>StructError\<close> is \<open>struct.error\<close>; \<open>OSError\<close> stands for a failure the network
  stack reports on connecting or on the TLS handshake; \<open>DataError\<close> and
  \<open>OperationalError\<close> are those of \<open>sqlite3\<close>, which raises \<open>OverflowError\<close>
  for a parameter it cannot pass on.
\<close>

datatype exn =
    ConnectionError
  | ValueError string
  | IndexError
  | StructError
  | UnicodeEncodeError
  | OSError
  | OverflowError
  | DataError
  | OperationalError string

section \<open>The library functions \<open>dss_query.py\<close> calls\<close>

subsection \<open>\<open>bytes.decode(errors="ignore")\<close> and \<open>str.encode()\<close>\<close>

text \<open>
  CPython's UTF-8 decoder on the octet values. A lead byte announces one to four octets;
  continuation bytes lie in \<open>0x80..0xBF\<close>; overlong forms, surrogates and code points
  above \<open>0x10FFFF\<close> are rejected by the range of the second octet. With
  \<open>errors="ignore"\<close> the octets of an ill-formed sequence up to the offending one are
  dropped and decoding resumes at the offending octet; a sequence cut short by the end of
  the data is dropped whole.
\<close>

definition is_cont :: "nat \<Rightarrow> bool" where
  "is_cont b \<longleftrightarrow> 128 \<le> b \<and> b < 192"

fun utf8_dec :: "nat list \<Rightarrow> nat list" where
  "utf8_dec [] = []"
| "utf8_dec (c # bs) =
     (if c < 128 then c # utf8_dec bs
      else if c < 194 then utf8_dec bs
      else if c < 224 then
        (case bs of
           [] \<Rightarrow> []
         | b2 # r2 \<Rightarrow>
             if \<not> is_cont b2 then utf8_dec bs
             else ((c - 192) * 64 + (b2 - 128)) # utf8_dec r2)
      else if c < 240 then
        (case bs of
           [] \<Rightarrow> []
         | b2 # r2 \<Rightarrow>
             if \<not> is_cont b2 \<or> (if b2 < 160 then c = 224 else c = 237) then utf8_dec bs
             else
               (case r2 of
                  [] \<Rightarrow> []
                | b3 # r3 \<Rightarrow>
                    if \<not> is_cont b3 then utf8_dec r2
                    else ((c - 224) * 4096 + (b2 - 128) * 64 + (b3 - 128)) # utf8_dec r3))
      else if c < 245 then
        (case bs of
           [] \<Rightarrow> []
         | b2 # r2 \<Rightarrow>
             if \<not> is_cont b2 \<or> (if b2 < 144 then c = 240 else c = 244) then utf8_dec bs
             else
               (case r2 of
                  [] \<Rightarrow> []
                | b3 # r3 \<Rightarrow>
                    if \<not> is_cont b3 then utf8_dec r2
                    else
                      (case r3 of
                         [] \<Rightarrow> []
                       | b4 # r4 \<Rightarrow>
                           if \<not> is_cont b4 then utf8_dec r3
                           else ((c - 240) * 262144 + (b2 - 128) * 4096
                                 + (b3 - 128) * 64 + (b4 - 128)) # utf8_dec r4)))
      else utf8_dec bs)"

definition decode_ignore :: "bytes \<Rightarrow> str" where
  "decode_ignore bs = utf8_dec (map unat bs)"

text \<open>
  \<open>str.encode()\<close>: UTF-8, strict. A surrogate cannot be encoded
  (\<open>UnicodeEncodeError\<close>); a number above \<open>0x10FFFF\<close> is no code point of a \<open>str\<close> and
  is refused likewise.
\<close>

definition encodable :: "nat \<Rightarrow> bool" where
  "encodable cp \<longleftrightarrow> cp < 55296 \<or> (57344 \<le> cp \<and> cp < 1114112)"

definition utf8_enc1 :: "nat \<Rightarrow> nat list" where
  "utf8_enc1 cp =
     (if cp < 128 then [cp]
      else if cp < 2048 then [192 + cp div 64, 128 + cp mod 64]
      else if cp < 65536 then [224 + cp div 4096, 128 + cp div 64 mod 64, 128 + cp mod 64]
      else [240 + cp div 262144, 128 + cp div 4096 mod 64, 128 + cp div 64 mod 64,
            128 + cp mod 64])"

definition utf8_enc :: "nat list \<Rightarrow> nat list" where
  "utf8_enc s = concat (map utf8_enc1 s)"

definition encode :: "str \<Rightarrow> exn + bytes" where
  "encode s = (if list_all encodable s then Inr (map of_nat (utf8_enc s))
               else Inl UnicodeEncodeError)"

subsection \<open>\<open>struct\<close>, little-endian\<close>

fun le_nat :: "bytes \<Rightarrow> nat" where
  "le_nat [] = 0"
| "le_nat (b # bs) = unat b + 256 * le_nat bs"

fun le_bytes :: "nat \<Rightarrow> nat \<Rightarrow> bytes" where
  "le_bytes 0 v = []"
| "le_bytes (Suc n) v = of_nat (v mod 256) # le_bytes n (v div 256)"

text \<open>\<open>struct.unpack("<I", b)\<close>: exactly four octets.\<close>

definition unpack_I :: "bytes \<Rightarrow> exn + nat" where
  "unpack_I b = (if length b = 4 then Inr (le_nat b) else Inl StructError)"

text \<open>\<open>struct.unpack_from\<close> of one little-endian field of \<open>w\<close> octets at offset
  \<open>off\<close>; \<open>struct.error\<close> when the buffer ends before the field does.\<close>

definition unpack_from :: "nat \<Rightarrow> bytes \<Rightarrow> nat \<Rightarrow> exn + nat" where
  "unpack_from w buf off =
     (if off + w \<le> length buf then Inr (le_nat (take w (drop off buf)))
      else Inl StructError)"

text \<open>\<open>struct.unpack_from("<HH", buf, off)\<close>\<close>

definition unpack_from_HH :: "bytes \<Rightarrow> nat \<Rightarrow> exn + nat \<times> nat" where
  "unpack_from_HH buf off =
     (if off + 4 \<le> length buf
      then Inr (le_nat (take 2 (drop off buf)), le_nat (take 2 (drop (off + 2) buf)))
      else Inl StructError)"

text \<open>\<open>struct.pack("<I", v)\<close>: \<open>struct.error\<close> when \<open>v\<close> does not fit 32 bits.\<close>

definition pack_I :: "nat \<Rightarrow> exn + bytes" where
  "pack_I v = (if v < 2 ^ 32 then Inr (le_bytes 4 v) else Inl StructError)"

subsection \<open>Sockets\<close>

text \<open>
  What the peer sends, as the chunks in which the connection delivers it; when the list
  is exhausted the peer has closed. \<open>recv s k\<close> is \<open>sock.recv(k)\<close>: at most \<open>k\<close> octets
  of the chunk at the head, \<open>b""\<close> on a closed connection. A read that runs into the
  timeout raises in the source as a read on a closed connection does in \<open>recv_exact\<close>;
  the model has the peer close instead.
\<close>

type_synonym sock = "bytes list"

definition recv :: "sock \<Rightarrow> nat \<Rightarrow> bytes \<times> sock" where
  "recv s k =
     (case s of
        [] \<Rightarrow> ([], [])
      | c # cs \<Rightarrow> if length c \<le> k then (c, cs) else (take k c, drop k c # cs))"

section \<open>backend/dss_query.py\<close>

definition LISTING_USERNAME :: str where "LISTING_USERNAME = py_str ''__dsslist''"
definition NET_MSG_LISTING :: byte where "NET_MSG_LISTING = 0"
definition NET_SVM_WHATS_UP :: byte where "NET_SVM_WHATS_UP = 1"
definition NET_SVM_LIST_SERVER :: byte where "NET_SVM_LIST_SERVER = 2"
definition NET_SI_USE_SSL :: byte where "NET_SI_USE_SSL = 1"

text \<open>\<open>recv_exact\<close>: the loop, with \<open>buf\<close> as its accumulator; \<open>recv_exact s n []\<close> is
  the call. \<open>n\<close> is an integer: \<open>recv_packet\<close> passes \<open>size - 4\<close>, which is negative for
  a declared size below 4, and the loop then does not run.\<close>

function recv_exact :: "sock \<Rightarrow> int \<Rightarrow> bytes \<Rightarrow> exn + bytes \<times> sock" where
  "recv_exact s n buf =
     (if int (length buf) < n
      then (if fst (recv s (nat (n - int (length buf)))) = [] then Inl ConnectionError
            else recv_exact (snd (recv s (nat (n - int (length buf))))) n
                   (buf @ fst (recv s (nat (n - int (length buf))))))
      else Inr (buf, s))"
  by pat_completeness auto
termination
  by (relation "measure (\<lambda>(s, n, buf). nat (n - int (length buf)))") auto

definition recv_packet :: "sock \<Rightarrow> exn + bytes \<times> sock" where
  "recv_packet s =
     (case recv_exact s 4 [] of
        Inl e \<Rightarrow> Inl e
      | Inr (header, s1) \<Rightarrow>
          (case unpack_I header of
             Inl e \<Rightarrow> Inl e
           | Inr size' \<Rightarrow>
               (case recv_exact s1 (int size' - 4) [] of
                  Inl e \<Rightarrow> Inl e
                | Inr (body, s2) \<Rightarrow> Inr (header @ body, s2))))"

text \<open>\<open>parse_whats_up\<close>: \<open>msg[0]\<close> and \<open>msg[1]\<close> raise \<open>IndexError\<close> past the end.\<close>

definition parse_whats_up :: "bytes \<Rightarrow> exn + byte \<times> nat \<times> str" where
  "parse_whats_up pkt =
     (let msg = drop 4 pkt in
      if length msg < 1 then Inl IndexError
      else if msg ! 0 \<noteq> NET_SVM_WHATS_UP then Inl (ValueError ''Expected WHATS_UP'')
      else if length msg < 2 then Inl IndexError
      else
        (case unpack_from 4 msg 2 of
           Inl e \<Rightarrow> Inl e
         | Inr version \<Rightarrow> Inr (msg ! 1, version, decode_ignore (drop 6 msg))))"

definition build_listing_request :: "nat \<Rightarrow> str \<Rightarrow> exn + bytes" where
  "build_listing_request version netver =
     (case pack_I version of
        Inl e \<Rightarrow> Inl e
      | Inr v \<Rightarrow>
          (case encode netver of
             Inl e \<Rightarrow> Inl e
           | Inr nv \<Rightarrow>
               (case encode LISTING_USERNAME of
                  Inl e \<Rightarrow> Inl e
                | Inr user \<Rightarrow>
                    (let payload = [NET_MSG_LISTING] @ v @ (nv @ [0]) @ [1] @ user in
                     case pack_I (4 + length payload) of
                       Inl e \<Rightarrow> Inl e
                     | Inr size' \<Rightarrow> Inr (size' @ payload)))))"

text \<open>\<open>read_cstring\<close>: \<open>buf.index(0, off)\<close> is the position of the first zero octet at
  or after \<open>off\<close>, and raises \<open>ValueError\<close> when there is none.\<close>

definition read_cstring :: "bytes \<Rightarrow> nat \<Rightarrow> exn + str \<times> nat" where
  "read_cstring buf off =
     (if 0 \<in> set (drop off buf)
      then (let end' = off + length (takeWhile (\<lambda>b. b \<noteq> 0) (drop off buf))
            in Inr (decode_ignore (take (end' - off) (drop off buf)), end' + 1))
      else Inl (ValueError ''subsection not found''))"

text \<open>\<open>parse_list_server\<close>: the slice \<open>buf[off:off + icon_size]\<close> is cut at the end of
  the buffer without an error. Octet 4 of the packet, the message type, is skipped
  unread.\<close>

definition parse_list_server :: "bytes \<Rightarrow> exn + server_info" where
  "parse_list_server pkt =
     (let buf = drop 5 pkt in
      case read_cstring buf 0 of
        Inl e \<Rightarrow> Inl e
      | Inr (name', off1) \<Rightarrow>
     (case read_cstring buf off1 of
        Inl e \<Rightarrow> Inl e
      | Inr (info', off2) \<Rightarrow>
     (case read_cstring buf off2 of
        Inl e \<Rightarrow> Inl e
      | Inr (news', off3) \<Rightarrow>
     (case unpack_from 4 buf off3 of
        Inl e \<Rightarrow> Inl e
      | Inr icon_size \<Rightarrow>
     (case unpack_from_HH buf (off3 + 4 + icon_size) of
        Inl e \<Rightarrow> Inl e
      | Inr (players', max_players') \<Rightarrow>
          Inr \<lparr>name = Some name', info = Some info', news = Some news',
               players = Some (int players'), max_players = Some (int max_players'),
               icon = Some (take icon_size (drop (off3 + 4) buf))\<rparr>)))))"

text \<open>
  \<open>query_dss\<close>. \<open>conn\<close> is the outcome of \<open>socket.create_connection\<close>: an error, or
  the stream the server sends. \<open>tls\<close> is the outcome of \<open>ctx.wrap_socket\<close>, used when
  the greeting sets \<open>NET_SI_USE_SSL\<close>: an error, or the decrypted stream that replaces
  the socket. The result is what the call returns or raises, paired with the list of
  messages handed to \<open>sendall\<close>, which is taken to deliver them.
\<close>

definition query_dss :: "exn + sock \<Rightarrow> exn + sock \<Rightarrow> (exn + server_info) \<times> bytes list" where
  "query_dss conn tls =
     (case conn of
        Inl e \<Rightarrow> (Inl e, [])
      | Inr sock0 \<Rightarrow>
     (case recv_packet sock0 of
        Inl e \<Rightarrow> (Inl e, [])
      | Inr (pkt, sock1) \<Rightarrow>
     (case parse_whats_up pkt of
        Inl e \<Rightarrow> (Inl e, [])
      | Inr (flags, version, netver) \<Rightarrow>
     (case (if flags AND NET_SI_USE_SSL \<noteq> 0 then tls else Inr sock1) of
        Inl e \<Rightarrow> (Inl e, [])
      | Inr sock2 \<Rightarrow>
     (case build_listing_request version netver of
        Inl e \<Rightarrow> (Inl e, [])
      | Inr request \<Rightarrow>
          ((case recv_packet sock2 of
              Inl e \<Rightarrow> Inl e
            | Inr (pkt2, sock3) \<Rightarrow> parse_list_server pkt2),
           [request]))))))"

section \<open>backend/storage/servers.py: the \<open>servers\<close> table\<close>

text \<open>
  \<open>datetime.now()\<close> and SQLite's \<open>CURRENT_TIMESTAMP\<close> are readings of a clock: every
  operation that stores one takes the reading as an argument.
\<close>

type_synonym timestamp = nat

text \<open>
  A row of the table \<open>servers\<close>. Its six listing columns are the keys of \<open>server_info\<close>,
  so the row extends that record; \<open>srv_id\<close> is the column \<open>id\<close>. A nullable column is
  an option, \<open>NULL\<close> being \<open>None\<close>. The column \<open>source\<close> is free text in the schema
  (the comment there lists 'manual', 'dynamic', 'favorite').
\<close>

record server = server_info +
  srv_id :: nat
  ip :: str
  port :: int
  website :: "str option"
  source :: str
  trusted :: bool
  important :: bool
  last_seen :: "timestamp option"
  last_queried :: "timestamp option"
  query_failures :: int
  added_date :: timestamp

text \<open>The table is the list of its rows, in rowid order.\<close>

type_synonym db = "server list"

definition manual :: str where "manual = py_str ''manual''"
definition dynamic :: str where "dynamic = py_str ''dynamic''"
definition favorite :: str where "favorite = py_str ''favorite''"

text \<open>\<open>WHERE ip = ? AND port = ?\<close>\<close>

definition at_key :: "str \<Rightarrow> int \<Rightarrow> server \<Rightarrow> bool" where
  "at_key ip' port' r \<longleftrightarrow> ip r = ip' \<and> port r = port'"

text \<open>\<open>UPDATE servers SET ... WHERE ...\<close>: every row the condition selects is rewritten
  in place, the others stay.\<close>

definition sql_update :: "(server \<Rightarrow> bool) \<Rightarrow> (server \<Rightarrow> server) \<Rightarrow> db \<Rightarrow> db" where
  "sql_update cond f d = map (\<lambda>r. if cond r then f r else r) d"

text \<open>\<open>get_server\<close>: \<open>fetchone\<close> of the select by key.\<close>

definition get_server :: "str \<Rightarrow> int \<Rightarrow> db \<Rightarrow> server option" where
  "get_server ip' port' d = find (at_key ip' port') d"

text \<open>The \<open>CASE\<close> expression of the upsert: \<open>new\<close> is \<open>excluded.source\<close>, \<open>old\<close> is
  \<open>servers.source\<close>.\<close>

definition merge_source :: "str \<Rightarrow> str \<Rightarrow> str" where
  "merge_source new old =
     (if new = favorite then favorite
      else if old = favorite then favorite
      else new)"

text \<open>\<open>COALESCE(x, y)\<close>: the first argument that is not \<open>NULL\<close>.\<close>

definition coalesce :: "'a option \<Rightarrow> 'a option \<Rightarrow> 'a option" where
  "coalesce x y = (case x of Some v \<Rightarrow> Some v | None \<Rightarrow> y)"

text \<open>
  \<open>add_server\<close>: \<open>INSERT ... ON CONFLICT(ip, port) DO UPDATE ... RETURNING id\<close>.
  \<open>now\<close> is \<open>datetime.now()\<close>; \<open>utc\<close> is the \<open>CURRENT_TIMESTAMP\<close> that fills
  \<open>added_date\<close> of a new row and \<open>rowid\<close> the id that \<open>AUTOINCREMENT\<close> allots to it.
  The columns the insert does not name take their defaults (\<open>NULL\<close>, and 0 for
  \<open>query_failures\<close>). The result is the returned id and the new table.
\<close>

definition add_server ::
  "str \<Rightarrow> int \<Rightarrow> str \<Rightarrow> bool \<Rightarrow> bool \<Rightarrow> str option \<Rightarrow> timestamp \<Rightarrow> timestamp \<Rightarrow> nat
     \<Rightarrow> db \<Rightarrow> nat \<times> db" where
  "add_server ip' port' source' trusted' important' website' now utc rowid d =
     (case get_server ip' port' d of
        None \<Rightarrow>
          (rowid,
           d @ [\<lparr>name = None, info = None, news = None, players = None,
                 max_players = None, icon = None,
                 srv_id = rowid, ip = ip', port = port', website = website',
                 source = source', trusted = trusted', important = important',
                 last_seen = Some now, last_queried = None, query_failures = 0,
                 added_date = utc\<rparr>])
      | Some old \<Rightarrow>
          (srv_id old,
           sql_update (at_key ip' port')
             (\<lambda>r. r\<lparr>source := merge_source source' (source r),
                     trusted := trusted',
                     important := important',
                     last_seen := Some now,
                     website := coalesce website' (website r)\<rparr>) d))"

text \<open>\<open>update_server_info\<close>\<close>

definition update_server_info :: "str \<Rightarrow> int \<Rightarrow> server_info \<Rightarrow> timestamp \<Rightarrow> db \<Rightarrow> db" where
  "update_server_info ip' port' si now d =
     sql_update (at_key ip' port')
       (\<lambda>r. r\<lparr>name := name si, info := info si, news := news si,
               players := players si, max_players := max_players si, icon := icon si,
               last_queried := Some now, query_failures := 0\<rparr>) d"

text \<open>\<open>mark_query_failure\<close>. The counter is a Python/SQLite integer, modelled unbounded:
  a 64-bit column overflows only after \<open>2^63\<close> failed queries.\<close>

definition mark_query_failure :: "str \<Rightarrow> int \<Rightarrow> timestamp \<Rightarrow> db \<Rightarrow> db" where
  "mark_query_failure ip' port' now d =
     sql_update (at_key ip' port')
       (\<lambda>r. r\<lparr>query_failures := query_failures r + 1, last_queried := Some now\<rparr>) d"

text \<open>\<open>remove_server\<close>\<close>

definition remove_server :: "str \<Rightarrow> int \<Rightarrow> db \<Rightarrow> db" where
  "remove_server ip' port' d = filter (\<lambda>r. \<not> at_key ip' port' r) d"

text \<open>\<open>cleanup_failed_servers\<close>: \<open>DELETE ... RETURNING ip, port\<close>; the result is the
  list \<open>removed\<close> and the new table.\<close>

definition failed_dynamic :: "int \<Rightarrow> server \<Rightarrow> bool" where
  "failed_dynamic max_failures r \<longleftrightarrow> source r = dynamic \<and> query_failures r \<ge> max_failures"

definition cleanup_failed_servers :: "int \<Rightarrow> db \<Rightarrow> (str \<times> int) list \<times> db" where
  "cleanup_failed_servers max_failures d =
     (map (\<lambda>r. (ip r, port r)) (filter (failed_dynamic max_failures) d),
      filter (\<lambda>r. \<not> failed_dynamic max_failures r) d)"

text \<open>\<open>set_favorite\<close>\<close>

definition set_favorite :: "str \<Rightarrow> int \<Rightarrow> bool \<Rightarrow> db \<Rightarrow> db" where
  "set_favorite ip' port' is_favorite d =
     (if is_favorite
      then sql_update (at_key ip' port') (\<lambda>r. r\<lparr>source := favorite\<rparr>) d
      else sql_update (\<lambda>r. at_key ip' port' r \<and> source r = favorite)
             (\<lambda>r. r\<lparr>source := manual\<rparr>) d)"

subsection \<open>\<open>search_servers\<close> and the \<open>LIKE\<close> operator\<close>

text \<open>
  SQLite's \<open>LIKE\<close>, as the code uses it (no \<open>ESCAPE\<close>, \<open>case_sensitive_like\<close> left
  off): \<open>%\<close> (37) in the pattern matches any run of characters, \<open>_\<close> (95) any one
  character, and any other character matches itself, the ASCII letters without regard to
  case. Both operands are read as C strings, up to their first NUL, and character by
  character with SQLite's UTF-8 reader, which yields U+FFFD (65533) for U+FFFE, for
  U+FFFF and for a surrogate.
\<close>

definition lower :: "nat \<Rightarrow> nat" where
  "lower c = (if 65 \<le> c \<and> c \<le> 90 then c + 32 else c)"

definition like_read :: "nat \<Rightarrow> nat" where
  "like_read c =
     (if (55296 \<le> c \<and> c < 57344) \<or> c = 65534 \<or> c = 65535 then 65533 else c)"

definition same_like :: "nat \<Rightarrow> nat \<Rightarrow> bool" where
  "same_like a b \<longleftrightarrow> lower (like_read a) = lower (like_read b)"

fun like_match :: "str \<Rightarrow> str \<Rightarrow> bool" where
  "like_match [] s = (s = [])"
| "like_match (p # ps) [] = (p = 37 \<and> like_match ps [])"
| "like_match (p # ps) (c # cs) =
     (if p = 37 then like_match ps (c # cs) \<or> like_match (p # ps) cs
      else (p = 95 \<or> same_like p c) \<and> like_match ps cs)"

definition c_text :: "str \<Rightarrow> str" where
  "c_text s = takeWhile (\<lambda>c. c \<noteq> 0) s"

text \<open>\<open>x LIKE pat\<close> for a nullable column \<open>x\<close>: on \<open>NULL\<close> the result is \<open>NULL\<close>, which
  selects no row, alone or under \<open>OR\<close> with false operands.\<close>

definition sql_like :: "str option \<Rightarrow> str \<Rightarrow> bool" where
  "sql_like x pat = (case x of None \<Rightarrow> False | Some s \<Rightarrow> like_match (c_text pat) (c_text s))"

text \<open>\<open>ORDER BY important DESC, trusted DESC, players DESC\<close>; \<open>NULL\<close> sorts below every
  number, so last. SQL leaves the order of ties open: here they keep their table order.\<close>

definition order_rows :: "db \<Rightarrow> db" where
  "order_rows d =
     sort_key (\<lambda>r. (\<not> important r, \<not> trusted r, players r = None,
                     case players r of None \<Rightarrow> 0 | Some n \<Rightarrow> - n)) d"

text \<open>The rows the \<open>SELECT\<close> of \<open>search_servers\<close> yields when it runs to its end.\<close>

definition search_select :: "str \<Rightarrow> db \<Rightarrow> db" where
  "search_select search_pattern d =
     order_rows
       (filter (\<lambda>r. sql_like (name r) search_pattern \<or> sql_like (info r) search_pattern
                     \<or> sql_like (Some (ip r)) search_pattern) d)"

text \<open>
  \<open>search_servers\<close>. The statement does not always run to its end:
  \<^item> binding the pattern encodes it as UTF-8, which raises \<open>UnicodeEncodeError\<close> for a
    query with a surrogate; the module refuses a text of more than \<open>2^31 - 1\<close> octets
    (\<open>OverflowError\<close>) and SQLite one of more than \<open>10^9\<close> octets
    (\<open>sqlite3.DataError\<close>);
  \<^item> \<open>LIKE\<close> refuses a pattern of more than 50000 octets
    (\<open>sqlite3.OperationalError\<close>), when it is evaluated, that is as soon as the table
    has a row.
\<close>

definition search_servers :: "str \<Rightarrow> db \<Rightarrow> exn + db" where
  "search_servers query d =
     (let search_pattern = [37] @ query @ [37]
      in if \<not> list_all encodable search_pattern then Inl UnicodeEncodeError
         else if 2147483647 < length (utf8_enc search_pattern) then Inl OverflowError
         else if 1000000000 < length (utf8_enc search_pattern) then Inl DataError
         else if 50000 < length (utf8_enc search_pattern) \<and> d \<noteq> []
           then Inl (OperationalError ''LIKE or GLOB pattern too complex'')
         else Inr (search_select search_pattern d))"

text \<open>
  Substring containment, to compare \<open>search_servers\<close> with: \<open>contains_by eq q s\<close> holds
  when \<open>q\<close> matches a contiguous part of \<open>s\<close> character by character under \<open>eq\<close>.
  With equality it is Python's \<open>q in s\<close>; with \<open>same_like\<close> it is containment up to
  the case of ASCII letters and up to what SQLite reads as U+FFFD.
\<close>

fun prefix_by :: "('a \<Rightarrow> 'a \<Rightarrow> bool) \<Rightarrow> 'a list \<Rightarrow> 'a list \<Rightarrow> bool" where
  "prefix_by eq [] s = True"
| "prefix_by eq (x # xs) [] = False"
| "prefix_by eq (x # xs) (y # ys) = (eq x y \<and> prefix_by eq xs ys)"

fun contains_by :: "('a \<Rightarrow> 'a \<Rightarrow> bool) \<Rightarrow> 'a list \<Rightarrow> 'a list \<Rightarrow> bool" where
  "contains_by eq q [] = (q = [])"
| "contains_by eq q (y # ys) = (prefix_by eq q (y # ys) \<or> contains_by eq q ys)"

definition contains :: "'a list \<Rightarrow> 'a list \<Rightarrow> bool" where
  "contains q s = contains_by (=) q s"

definition contains_like :: "str \<Rightarrow> str \<Rightarrow> bool" where
  "contains_like q s = contains_by same_like q s"

definition field_contains :: "str \<Rightarrow> str option \<Rightarrow> bool" where
  "field_contains q x = (case x of None \<Rightarrow> False | Some s \<Rightarrow> contains q s)"

definition field_contains_like :: "str \<Rightarrow> str option \<Rightarrow> bool" where
  "field_contains_like q x =
     (case x of None \<Rightarrow> False | Some s \<Rightarrow> contains_like q (c_text s))"

section \<open>backend/network/dynamic_servers.py\<close>

text \<open>
  \<open>validate_and_add_server\<close>. \<open>query_result\<close> is the outcome of
  \<open>self.query_function(ip, int(port), timeout=timeout)\<close>: the exception it raises or the
  dict it returns. \<open>now\<close> is the clock reading of the first store operation, \<open>now2\<close>
  that of \<open>update_server_info\<close>. The callbacks are notifications to the caller and are
  left out. The result is the returned flag and the new table.
\<close>

definition validate_and_add_server ::
  "exn + server_info \<Rightarrow> str \<Rightarrow> int \<Rightarrow> bool \<Rightarrow> bool \<Rightarrow> str option
     \<Rightarrow> timestamp \<Rightarrow> timestamp \<Rightarrow> timestamp \<Rightarrow> nat \<Rightarrow> db \<Rightarrow> bool \<times> db" where
  "validate_and_add_server query_result ip' port' trusted' important' website'
       now now2 utc rowid d =
     (case query_result of
        Inr si \<Rightarrow>
          (True,
           update_server_info ip' port' si now2
             (snd (add_server ip' port' dynamic trusted' important' website' now utc rowid d)))
      | Inl e \<Rightarrow>
          (False,
           case get_server ip' port' d of
             Some existing \<Rightarrow> mark_query_failure ip' port' now d
           | None \<Rightarrow> d))"

text \<open>The \<open>(ip, port)\<close> identities of a table.\<close>

definition keys_of :: "db \<Rightarrow> (str \<times> int) list" where
  "keys_of d = map (\<lambda>r. (ip r, port r)) d"

section \<open>Sample data\<close>

definition alpha :: server where
  "alpha = \<lparr>name = Some (py_str ''Alpha''), info = Some (py_str ''Hi''),
            news = Some [], players = Some 5, max_players = Some 20, icon = Some [],
            srv_id = 1, ip = py_str ''10.0.0.1'', port = 7777,
            website = Some (py_str ''http://alpha''), source = favorite,
            trusted = False, important = False, last_seen = Some 5,
            last_queried = Some 6, query_failures = 0, added_date = 1\<rparr>"

definition beta :: server where
  "beta = \<lparr>name = None, info = None, news = None, players = None,
           max_players = None, icon = None,
           srv_id = 2, ip = py_str ''10.0.0.2'', port = 7777,
           website = None, source = dynamic,
           trusted = True, important = False, last_seen = Some 7,
           last_queried = Some 8, query_failures = 3, added_date = 2\<rparr>"

definition snapshot :: server_info where
  "snapshot = \<lparr>name = Some (py_str ''Test''), info = Some (py_str ''Hi''),
               news = Some [], players = Some 5, max_players = Some 20,
               icon = Some [137, 80, 78, 71]\<rparr>"

text \<open>A greeting frame: type \<open>WHATS_UP\<close>, flags 0, version 3, network version \<open>1.0\<close>.\<close>

definition greeting :: bytes where
  "greeting = [13, 0, 0, 0, 1, 0, 3, 0, 0, 0, 49, 46, 48]"

text \<open>A greeting whose network version is the octets \<open>FF 31\<close>, which are not UTF-8.\<close>

definition greeting_ff :: bytes where
  "greeting_ff = [12, 0, 0, 0, 1, 0, 3, 0, 0, 0, 255, 49]"

text \<open>A response frame with the listing of \<open>snapshot\<close>, whose message-type octet is 0
  and not \<open>NET_SVM_LIST_SERVER\<close>.\<close>

definition response_type0 :: bytes where
  "response_type0 = [26, 0, 0, 0, 0, 84, 101, 115, 116, 0, 72, 105, 0, 0,
                     4, 0, 0, 0, 137, 80, 78, 71, 5, 0, 20, 0]"

section \<open>Properties of the store\<close>

lemma find_sql_update:
  assumes "\<And>r. upd r \<Longrightarrow> cond (g r) = cond r"
  shows "find cond (sql_update upd g d) =
           map_option (\<lambda>r. if upd r then g r else r) (find cond d)"
  using assms by (induction d) (auto simp: sql_update_def)

lemma get_server_sql_update:
  assumes "\<And>r. ip (g r) = ip r \<and> port (g r) = port r"
  shows "get_server a p (sql_update upd g d) =
           map_option (\<lambda>r. if upd r then g r else r) (get_server a p d)"
  unfolding get_server_def
  by (rule find_sql_update) (simp_all add: at_key_def assms)

lemma get_server_at_key: "get_server a p d = Some r \<Longrightarrow> at_key a p r"
  unfolding get_server_def by (auto simp: find_Some_iff)

lemma sql_update_absent:
  "get_server a p d = None \<Longrightarrow> sql_update (\<lambda>r. at_key a p r \<and> P r) f d = d"
  unfolding get_server_def sql_update_def
  by (induction d) (auto split: if_splits)

lemma sql_update_absent_key:
  "get_server a p d = None \<Longrightarrow> sql_update (at_key a p) f d = d"
  using sql_update_absent [of a p d "\<lambda>_. True" f] by simp

lemma keys_of_sql_update:
  assumes "\<And>r. ip (f r) = ip r \<and> port (f r) = port r"
  shows "keys_of (sql_update c f d) = keys_of d"
  by (induction d) (simp_all add: keys_of_def sql_update_def assms)

lemma get_server_other_sql_update:
  assumes "\<And>r. ip (f r) = ip r \<and> port (f r) = port r" and "(a', p') \<noteq> (a, p)"
  shows "get_server a' p' (sql_update (\<lambda>r. at_key a p r \<and> P r) f d) = get_server a' p' d"
  unfolding get_server_def sql_update_def using assms
  by (induction d) (auto simp: at_key_def)

text \<open>The upsert on a key that is present: the row found under the key afterwards is the
  old row with the five columns of the \<open>DO UPDATE SET\<close> clause rewritten.\<close>

lemma get_server_add_server_existing:
  assumes "get_server a p d = Some r"
  shows "get_server a p (snd (add_server a p src tr imp web now utc rid d)) =
           Some (r\<lparr>source := merge_source src (source r), trusted := tr, important := imp,
                   last_seen := Some now, website := coalesce web (website r)\<rparr>)"
  using assms get_server_at_key [OF assms]
  by (simp add: add_server_def get_server_sql_update)

text \<open>The constraint \<open>UNIQUE(ip, port)\<close>: a table whose keys are distinct stays so under
  the upsert, and there \<open>get_server\<close> finds every row under its own key.\<close>

lemma get_server_None_iff: "get_server a p d = None \<longleftrightarrow> (a, p) \<notin> set (keys_of d)"
  by (induction d) (auto simp: get_server_def keys_of_def at_key_def)

lemma get_server_unique:
  "distinct (keys_of d) \<Longrightarrow> r \<in> set d \<Longrightarrow> at_key a p r \<Longrightarrow> get_server a p d = Some r"
  by (induction d) (auto simp: get_server_def keys_of_def at_key_def image_iff)

lemma add_server_keys_distinct:
  assumes "distinct (keys_of d)"
  shows "distinct (keys_of (snd (add_server a p src tr imp web now utc rid d)))"
proof (cases "get_server a p d")
  case None
  then have "(a, p) \<notin> set (keys_of d)" by (simp add: get_server_None_iff)
  then show ?thesis using assms None by (simp add: add_server_def keys_of_def)
next
  case (Some r)
  then show ?thesis using assms by (simp add: add_server_def keys_of_sql_update)
qed

lemma sample_alpha_stored:
  "get_server (py_str ''10.0.0.1'') 7777 [alpha, beta] = Some alpha"
  by (simp add: get_server_def at_key_def alpha_def)

lemma source_names_distinct:
  "manual \<noteq> dynamic" "favorite \<noteq> dynamic" "manual \<noteq> favorite"
  by (simp_all add: manual_def dynamic_def favorite_def py_str_def)

lemma sample_beta_stored:
  "get_server (py_str ''10.0.0.2'') 7777 [alpha, beta] = Some beta"
  by (simp add: get_server_def at_key_def alpha_def beta_def py_str_def)

lemma sample_gamma_absent:
  "get_server (py_str ''10.0.0.3'') 7777 [alpha, beta] = None"
  by (simp add: get_server_def at_key_def alpha_def beta_def py_str_def)

lemma failed_dynamic_eq:
  "failed_dynamic n = (\<lambda>r. source r = dynamic \<and> query_failures r \<ge> n)"
  by (rule ext) (simp add: failed_dynamic_def)

subsection \<open>The upsert\<close>

text \<open>
  C1. When \<open>add_server\<close> is called on the key of a stored row, the source of that row
  afterwards is \<open>favorite\<close> if the new or the stored source is \<open>favorite\<close>, and the new
  source otherwise. In particular a stored \<open>favorite\<close> stays \<open>favorite\<close> under an add
  with source \<open>dynamic\<close> or \<open>manual\<close>.
\<close>

theorem add_server_favorite_sticky:
  assumes "get_server a p d = Some r"
  shows "\<exists>r'. get_server a p (snd (add_server a p src tr imp web now utc rid d)) = Some r'
           \<and> source r' = (if src = favorite \<or> source r = favorite then favorite else src)
           \<and> (source r = favorite \<and> (src = dynamic \<or> src = manual) \<longrightarrow> source r' = favorite)"
  by (simp add: get_server_add_server_existing [OF assms] merge_source_def)

theorem add_server_favorite_sticky_witness:
  "get_server (py_str ''10.0.0.1'') 7777 [alpha, beta] = Some alpha
   \<and> source alpha = favorite
   \<and> (\<exists>r'. get_server (py_str ''10.0.0.1'') 7777
              (snd (add_server (py_str ''10.0.0.1'') 7777 dynamic True False None 9 9 3
                     [alpha, beta])) = Some r'
            \<and> source r' = favorite)"
proof -
  have s: "source alpha = favorite"
    by (simp add: alpha_def)
  from add_server_favorite_sticky [OF sample_alpha_stored, of dynamic True False None 9 9 3]
    sample_alpha_stored s
  show ?thesis by auto
qed

text \<open>
  C4, as stated: the upsert keeps the stored website both when the new value is \<open>None\<close>
  and when it is the empty string. The second half fails: \<open>COALESCE\<close> yields its first
  argument unless that is \<open>NULL\<close>, and the empty string is not \<open>NULL\<close>. Adding the key
  of \<open>alpha\<close> again with website \<open>""\<close> replaces \<open>http://alpha\<close> by \<open>""\<close>.
\<close>

theorem add_server_empty_website_counterexample:
  "get_server (py_str ''10.0.0.1'') 7777 [alpha, beta] = Some alpha
   \<and> website alpha = Some (py_str ''http://alpha'')
   \<and> map_option website
        (get_server (py_str ''10.0.0.1'') 7777
           (snd (add_server (py_str ''10.0.0.1'') 7777 manual False False (Some []) 9 9 3
                  [alpha, beta]))) = Some (Some [])
   \<and> Some [] \<noteq> website alpha"
  by (simp add: get_server_def at_key_def alpha_def beta_def add_server_def sql_update_def
        coalesce_def py_str_def)

text \<open>
  C4, amended. When \<open>add_server\<close> is called on the key of a stored row, the row keeps
  its website if the new value is \<open>None\<close>, and takes the new value whenever one is
  given, the empty string included.
\<close>

theorem add_server_website:
  assumes "get_server a p d = Some r"
  shows "\<exists>r'. get_server a p (snd (add_server a p src tr imp web now utc rid d)) = Some r'
           \<and> website r' = (case web of None \<Rightarrow> website r | Some w \<Rightarrow> Some w)"
  by (simp add: get_server_add_server_existing [OF assms] coalesce_def)

theorem add_server_website_witness:
  "get_server (py_str ''10.0.0.1'') 7777 [alpha, beta] = Some alpha
   \<and> (\<exists>r'. get_server (py_str ''10.0.0.1'') 7777
              (snd (add_server (py_str ''10.0.0.1'') 7777 dynamic True False None 9 9 3
                     [alpha, beta])) = Some r'
            \<and> website r' = website alpha)"
  using add_server_website [OF sample_alpha_stored, of dynamic True False None 9 9 3]
    sample_alpha_stored
  by simp

text \<open>
  C9. When \<open>add_server\<close> is called on the key of a stored row, the columns \<open>name\<close>,
  \<open>info\<close>, \<open>news\<close>, \<open>players\<close>, \<open>max_players\<close>, \<open>icon\<close>, \<open>query_failures\<close> and
  \<open>added_date\<close> of that row are unchanged; the row differs from the old one at most in
  \<open>source\<close>, \<open>trusted\<close>, \<open>important\<close>, \<open>website\<close> and \<open>last_seen\<close>.
\<close>

theorem add_server_frame:
  assumes "get_server a p d = Some r"
  shows "\<exists>r'. get_server a p (snd (add_server a p src tr imp web now utc rid d)) = Some r'
           \<and> name r' = name r \<and> info r' = info r \<and> news r' = news r
           \<and> players r' = players r \<and> max_players r' = max_players r \<and> icon r' = icon r
           \<and> query_failures r' = query_failures r \<and> added_date r' = added_date r
           \<and> r' = r\<lparr>source := source r', trusted := trusted r', important := important r',
                     website := website r', last_seen := last_seen r'\<rparr>"
  by (simp add: get_server_add_server_existing [OF assms])

theorem add_server_frame_witness:
  "get_server (py_str ''10.0.0.1'') 7777 [alpha, beta] = Some alpha
   \<and> (\<exists>r'. get_server (py_str ''10.0.0.1'') 7777
              (snd (add_server (py_str ''10.0.0.1'') 7777 dynamic True True None 9 9 3
                     [alpha, beta])) = Some r'
            \<and> name r' = name alpha \<and> query_failures r' = query_failures alpha
            \<and> added_date r' = added_date alpha)"
  using add_server_frame [OF sample_alpha_stored, of dynamic True True None 9 9 3]
    sample_alpha_stored
  by auto

subsection \<open>Recording the outcome of a query\<close>

text \<open>
  C6. On a key that is present, \<open>update_server_info\<close> sets \<open>query_failures\<close> to 0
  whatever it was, overwrites \<open>name\<close>, \<open>info\<close>, \<open>news\<close>, \<open>players\<close>,
  \<open>max_players\<close> and \<open>icon\<close> with the values of the dict and sets \<open>last_queried\<close> to
  the clock reading; \<open>mark_query_failure\<close> adds exactly 1 to \<open>query_failures\<close> and
  sets \<open>last_queried\<close>. On a key that is absent \<open>mark_query_failure\<close> leaves the table
  as it is.
\<close>

theorem query_outcome_recorded:
  "(get_server a p d = Some r \<longrightarrow>
      get_server a p (update_server_info a p si now d) =
        Some (r\<lparr>name := name si, info := info si, news := news si,
                players := players si, max_players := max_players si, icon := icon si,
                last_queried := Some now, query_failures := 0\<rparr>)
      \<and> get_server a p (mark_query_failure a p now d) =
          Some (r\<lparr>query_failures := query_failures r + 1, last_queried := Some now\<rparr>))
   \<and> (get_server a p d = None \<longrightarrow> mark_query_failure a p now d = d)"
proof (intro conjI impI)
  assume h: "get_server a p d = Some r"
  note k = get_server_at_key [OF h]
  show "get_server a p (update_server_info a p si now d) =
        Some (r\<lparr>name := name si, info := info si, news := news si,
                players := players si, max_players := max_players si, icon := icon si,
                last_queried := Some now, query_failures := 0\<rparr>)"
    using h k by (simp add: update_server_info_def get_server_sql_update)
  show "get_server a p (mark_query_failure a p now d) =
          Some (r\<lparr>query_failures := query_failures r + 1, last_queried := Some now\<rparr>)"
    using h k by (simp add: mark_query_failure_def get_server_sql_update)
next
  assume "get_server a p d = None"
  then show "mark_query_failure a p now d = d"
    by (simp add: mark_query_failure_def sql_update_absent_key)
qed

theorem query_outcome_recorded_witness:
  "get_server (py_str ''10.0.0.1'') 7777 [alpha, beta] = Some alpha
   \<and> query_failures alpha = 0
   \<and> map_option query_failures
        (get_server (py_str ''10.0.0.1'') 7777
           (update_server_info (py_str ''10.0.0.1'') 7777 snapshot 9 [alpha, beta])) = Some 0
   \<and> map_option query_failures
        (get_server (py_str ''10.0.0.1'') 7777
           (mark_query_failure (py_str ''10.0.0.1'') 7777 9 [alpha, beta])) = Some 1
   \<and> get_server (py_str ''10.0.0.3'') 7777 [alpha, beta] = None
   \<and> mark_query_failure (py_str ''10.0.0.3'') 7777 9 [alpha, beta] = [alpha, beta]"
proof -
  have q: "query_failures alpha = 0" by (simp add: alpha_def)
  from query_outcome_recorded [of "py_str ''10.0.0.1''" 7777 "[alpha, beta]" alpha snapshot 9]
    query_outcome_recorded [of "py_str ''10.0.0.3''" 7777 "[alpha, beta]" alpha snapshot 9]
    sample_alpha_stored sample_gamma_absent q
  show ?thesis by simp
qed

text \<open>
  C10. \<open>update_server_info\<close>, \<open>mark_query_failure\<close> and \<open>set_favorite\<close> leave the
  list of \<open>(ip, port)\<close> keys of the table as it is: none creates a row, none deletes
  one. On a key that is absent each of them, \<open>set_favorite\<close> with either flag, leaves
  the whole table unchanged.
\<close>

theorem keys_unchanged:
  "keys_of (update_server_info a p si now d) = keys_of d
   \<and> keys_of (mark_query_failure a p now d) = keys_of d
   \<and> keys_of (set_favorite a p b d) = keys_of d
   \<and> (get_server a p d = None \<longrightarrow>
        update_server_info a p si now d = d
        \<and> mark_query_failure a p now d = d
        \<and> set_favorite a p True d = d \<and> set_favorite a p False d = d)"
  by (simp add: update_server_info_def mark_query_failure_def set_favorite_def
        keys_of_sql_update sql_update_absent_key sql_update_absent)

theorem keys_unchanged_witness:
  "get_server (py_str ''10.0.0.3'') 7777 [alpha, beta] = None
   \<and> update_server_info (py_str ''10.0.0.3'') 7777 snapshot 9 [alpha, beta] = [alpha, beta]
   \<and> mark_query_failure (py_str ''10.0.0.3'') 7777 9 [alpha, beta] = [alpha, beta]
   \<and> set_favorite (py_str ''10.0.0.3'') 7777 True [alpha, beta] = [alpha, beta]
   \<and> set_favorite (py_str ''10.0.0.3'') 7777 False [alpha, beta] = [alpha, beta]"
  using keys_unchanged [of "py_str ''10.0.0.3''" 7777 snapshot 9 "[alpha, beta]" True]
    sample_gamma_absent
  by simp

subsection \<open>Eviction\<close>

text \<open>
  C2. For every table and every threshold \<open>n\<close>, \<open>cleanup_failed_servers n\<close> removes
  exactly the rows with source \<open>dynamic\<close> and \<open>query_failures \<ge> n\<close>, keeping the others
  in their order, returns the \<open>(ip, port)\<close> of the removed rows, and removes no row
  whose source is \<open>manual\<close> or \<open>favorite\<close>.
\<close>

theorem cleanup_failed_servers_exact:
  "(\<forall>r. r \<in> set (snd (cleanup_failed_servers n d)) \<longleftrightarrow>
         r \<in> set d \<and> \<not> (source r = dynamic \<and> query_failures r \<ge> n))
   \<and> snd (cleanup_failed_servers n d) =
        filter (\<lambda>r. \<not> (source r = dynamic \<and> query_failures r \<ge> n)) d
   \<and> fst (cleanup_failed_servers n d) =
        map (\<lambda>r. (ip r, port r)) (filter (\<lambda>r. source r = dynamic \<and> query_failures r \<ge> n) d)
   \<and> (\<forall>r \<in> set d. source r = manual \<or> source r = favorite \<longrightarrow>
         r \<in> set (snd (cleanup_failed_servers n d)))"
  using source_names_distinct
  by (auto simp: cleanup_failed_servers_def failed_dynamic_eq)

theorem cleanup_failed_servers_exact_witness:
  "cleanup_failed_servers 3 [alpha, beta] = ([(py_str ''10.0.0.2'', 7777)], [alpha])
   \<and> alpha \<in> set [alpha, beta] \<and> source alpha = favorite
   \<and> alpha \<in> set (snd (cleanup_failed_servers 3 [alpha, beta]))"
proof -
  have a: "source alpha = favorite" "source beta = dynamic" "query_failures beta = 3"
    "ip beta = py_str ''10.0.0.2''" "port beta = 7777"
    by (simp_all add: alpha_def beta_def)
  from cleanup_failed_servers_exact [of 3 "[alpha, beta]"] a source_names_distinct
  show ?thesis by (simp add: prod_eq_iff)
qed

subsection \<open>A failed validation\<close>

text \<open>
  C7. When the query fails: if the key has no row, \<open>validate_and_add_server\<close> returns
  \<open>False\<close> and the table is unchanged; if the key has a row, it returns \<open>False\<close> and
  the table is the one \<open>mark_query_failure\<close> yields, in which that row has its counter
  raised by 1 and \<open>last_queried\<close> set, every other key reads as before and the keys
  are the same.
\<close>

theorem validate_failure_store:
  "(get_server a p d = None \<longrightarrow>
      validate_and_add_server (Inl e) a p tr imp web now now2 utc rid d = (False, d))
   \<and> (get_server a p d = Some r \<longrightarrow>
        validate_and_add_server (Inl e) a p tr imp web now now2 utc rid d =
          (False, mark_query_failure a p now d)
        \<and> get_server a p (mark_query_failure a p now d) =
            Some (r\<lparr>query_failures := query_failures r + 1, last_queried := Some now\<rparr>)
        \<and> (\<forall>a' p'. (a', p') \<noteq> (a, p) \<longrightarrow>
              get_server a' p' (mark_query_failure a p now d) = get_server a' p' d)
        \<and> keys_of (mark_query_failure a p now d) = keys_of d)"
proof (intro conjI impI allI)
  assume h: "get_server a p d = Some r"
  show "get_server a p (mark_query_failure a p now d) =
            Some (r\<lparr>query_failures := query_failures r + 1, last_queried := Some now\<rparr>)"
    using h get_server_at_key [OF h] by (simp add: mark_query_failure_def get_server_sql_update)
  show "validate_and_add_server (Inl e) a p tr imp web now now2 utc rid d =
          (False, mark_query_failure a p now d)"
    using h by (simp add: validate_and_add_server_def)
  show "keys_of (mark_query_failure a p now d) = keys_of d"
    by (simp add: mark_query_failure_def keys_of_sql_update)
next
  fix a' p' assume "(a', p') \<noteq> (a, p)"
  then show "get_server a' p' (mark_query_failure a p now d) = get_server a' p' d"
    using get_server_other_sql_update [of _ a' p' a p "\<lambda>_. True" d]
    by (simp add: mark_query_failure_def)
next
  assume "get_server a p d = None"
  then show "validate_and_add_server (Inl e) a p tr imp web now now2 utc rid d = (False, d)"
    by (simp add: validate_and_add_server_def)
qed

theorem validate_failure_store_witness:
  "get_server (py_str ''10.0.0.3'') 7777 [alpha, beta] = None
   \<and> validate_and_add_server (Inl ConnectionError) (py_str ''10.0.0.3'') 7777 True False None
        9 10 9 3 [alpha, beta] = (False, [alpha, beta])
   \<and> get_server (py_str ''10.0.0.2'') 7777 [alpha, beta] = Some beta
   \<and> validate_and_add_server (Inl ConnectionError) (py_str ''10.0.0.2'') 7777 True False None
        9 10 9 3 [alpha, beta] =
      (False, mark_query_failure (py_str ''10.0.0.2'') 7777 9 [alpha, beta])"
  using validate_failure_store [of "py_str ''10.0.0.3''" 7777 "[alpha, beta]" ConnectionError
          True False None 9 10 9 3 beta]
    validate_failure_store [of "py_str ''10.0.0.2''" 7777 "[alpha, beta]" ConnectionError
          True False None 9 10 9 3 beta]
    sample_gamma_absent sample_beta_stored
  by simp

section \<open>Properties of the search\<close>

text \<open>The two containment tests say what they should: \<open>contains q s\<close> holds exactly when
  \<open>q\<close> is a contiguous part of \<open>s\<close>, and \<open>contains_by eq\<close> when some contiguous part of
  \<open>s\<close> matches \<open>q\<close> position by position.\<close>

lemma prefix_by_iff:
  "prefix_by eq q s \<longleftrightarrow> (\<exists>m b. s = m @ b \<and> list_all2 eq q m)"
proof (induction eq q s rule: prefix_by.induct)
  case (3 eq x xs y ys)
  then show ?case by (auto simp: list_all2_Cons1 Cons_eq_append_conv)
qed auto

lemma contains_by_iff:
  "contains_by eq q s \<longleftrightarrow> (\<exists>a m b. s = a @ m @ b \<and> list_all2 eq q m)"
proof (induction s)
  case Nil
  then show ?case by auto
next
  case (Cons y ys)
  show ?case
  proof
    assume "contains_by eq q (y # ys)"
    then consider "prefix_by eq q (y # ys)" | "contains_by eq q ys" by auto
    then show "\<exists>a m b. y # ys = a @ m @ b \<and> list_all2 eq q m"
    proof cases
      case 1
      then obtain m b where "y # ys = m @ b" "list_all2 eq q m" by (auto simp: prefix_by_iff)
      then have "y # ys = [] @ m @ b \<and> list_all2 eq q m" by simp
      then show ?thesis by blast
    next
      case 2
      then obtain a m b where "ys = a @ m @ b" "list_all2 eq q m" using Cons by auto
      then have "y # ys = (y # a) @ m @ b \<and> list_all2 eq q m" by simp
      then show ?thesis by blast
    qed
  next
    assume "\<exists>a m b. y # ys = a @ m @ b \<and> list_all2 eq q m"
    then obtain a m b where h: "y # ys = a @ m @ b" "list_all2 eq q m" by blast
    show "contains_by eq q (y # ys)"
    proof (cases a)
      case Nil
      then have "prefix_by eq q (y # ys)" using h by (auto simp: prefix_by_iff)
      then show ?thesis by simp
    next
      case (Cons a0 as)
      then have "ys = as @ m @ b" using h by simp
      then have "contains_by eq q ys" using h(2) Cons.IH by blast
      then show ?thesis by simp
    qed
  qed
qed

lemma contains_iff: "contains q s \<longleftrightarrow> (\<exists>a b. s = a @ q @ b)"
  by (auto simp: contains_def contains_by_iff list_all2_eq [symmetric])

text \<open>A pattern \<open>%q%\<close> whose \<open>q\<close> holds no wildcard matches a text exactly when the
  text contains \<open>q\<close> under \<open>same_like\<close>.\<close>

lemma like_match_percent: "like_match [37] s"
  by (induction s) simp_all

lemma prefix_by_Nil2: "prefix_by eq q [] \<longleftrightarrow> q = []"
  by (cases q) simp_all

lemma like_match_literal:
  "37 \<notin> set q \<Longrightarrow> 95 \<notin> set q \<Longrightarrow> like_match (q @ [37]) s = prefix_by same_like q s"
proof (induction q arbitrary: s)
  case Nil
  then show ?case by (simp add: like_match_percent)
next
  case (Cons x q)
  then show ?case by (cases s) auto
qed

lemma like_match_contains:
  assumes "37 \<notin> set q" "95 \<notin> set q"
  shows "like_match (37 # q @ [37]) s = contains_by same_like q s"
proof (induction s)
  case Nil
  show ?case using like_match_literal [OF assms, of "[]"] by (simp add: prefix_by_Nil2)
next
  case (Cons c cs)
  then show ?case using like_match_literal [OF assms, of "c # cs"] by simp
qed

lemma c_text_pattern:
  "0 \<notin> set q \<Longrightarrow> c_text ([37] @ q @ [37]) = 37 # q @ [37]"
proof -
  assume "0 \<notin> set q"
  then have "\<forall>c \<in> set (37 # q @ [37]). c \<noteq> (0::nat)" by (auto intro!: gr0I)
  then have "takeWhile (\<lambda>c. c \<noteq> 0) (37 # q @ [37]) = 37 # q @ [37]"
    by (simp only: takeWhile_eq_all_conv)
  then show ?thesis by (simp add: c_text_def)
qed

lemma sql_like_contains:
  assumes "37 \<notin> set q" "95 \<notin> set q" "0 \<notin> set q"
  shows "sql_like x ([37] @ q @ [37]) = field_contains_like q x"
  using like_match_contains [OF assms(1,2)] c_text_pattern [OF assms(3)]
  by (simp add: sql_like_def field_contains_like_def contains_like_def split: option.splits)

lemma set_order_rows: "set (order_rows d) = set d"
  by (simp add: order_rows_def)

text \<open>When the statement runs to its end, and when it does not.\<close>

lemma length_utf8_enc_pattern:
  "length (utf8_enc ([37] @ q @ [37])) = length (utf8_enc q) + 2"
  by (simp add: utf8_enc_def utf8_enc1_def)

lemma encodable_percent: "encodable 37"
  by (simp add: encodable_def)

lemma search_servers_runs:
  assumes "list_all encodable q" "length (utf8_enc q) + 2 \<le> 50000"
  shows "search_servers q d = Inr (search_select ([37] @ q @ [37]) d)"
  using assms
  by (simp add: search_servers_def Let_def length_utf8_enc_pattern encodable_percent
        del: append.simps)

lemma search_servers_too_complex:
  assumes "list_all encodable q" "50000 < length (utf8_enc q) + 2"
    and "length (utf8_enc q) + 2 \<le> 1000000000" "d \<noteq> []"
  shows "search_servers q d = Inl (OperationalError ''LIKE or GLOB pattern too complex'')"
  using assms
  by (simp add: search_servers_def Let_def length_utf8_enc_pattern encodable_percent
        del: append.simps)

lemma sample_query_runs:
  "list_all encodable (py_str ''alpha'')" "length (utf8_enc (py_str ''alpha'')) + 2 \<le> 50000"
  "list_all encodable (py_str ''a_p'')" "length (utf8_enc (py_str ''a_p'')) + 2 \<le> 50000"
  by (simp_all add: py_str_def encodable_def utf8_enc_def utf8_enc1_def)

lemmas like_eval =
  search_select_def sql_like_def c_text_def same_like_def like_read_def lower_def
  field_contains_like_def contains_like_def order_rows_def py_str_def alpha_def beta_def

text \<open>
  C3, as stated: \<open>search_servers q\<close> returns exactly the rows whose name, info or ip
  contains \<open>q\<close> as a case-sensitive substring. The code matches with \<open>LIKE\<close>, which
  does not distinguish the case of ASCII letters: the query \<open>alpha\<close> returns the row
  named \<open>Alpha\<close>, none of whose three columns contains \<open>alpha\<close>.
\<close>

theorem search_servers_case_counterexample:
  "search_servers (py_str ''alpha'') [alpha, beta] = Inr [alpha]
   \<and> name alpha = Some (py_str ''Alpha'')
   \<and> \<not> contains (py_str ''alpha'') (py_str ''Alpha'')
   \<and> \<not> field_contains (py_str ''alpha'') (name alpha)
   \<and> \<not> field_contains (py_str ''alpha'') (info alpha)
   \<and> \<not> field_contains (py_str ''alpha'') (Some (ip alpha))"
proof -
  have "search_select ([37] @ py_str ''alpha'' @ [37]) [alpha, beta] = [alpha]"
    by (simp add: like_eval)
  then have "search_servers (py_str ''alpha'') [alpha, beta] = Inr [alpha]"
    by (simp only: search_servers_runs [OF sample_query_runs(1,2)])
  moreover have "name alpha = Some (py_str ''Alpha'')
     \<and> \<not> contains (py_str ''alpha'') (py_str ''Alpha'')
     \<and> \<not> field_contains (py_str ''alpha'') (name alpha)
     \<and> \<not> field_contains (py_str ''alpha'') (info alpha)
     \<and> \<not> field_contains (py_str ''alpha'') (Some (ip alpha))"
    by code_simp
  ultimately show ?thesis by blast
qed

text \<open>The characters \<open>%\<close> and \<open>_\<close> of a query are wildcards of the pattern: \<open>a_p\<close>
  finds \<open>Alpha\<close>.\<close>

lemma search_servers_wildcard:
  "search_servers (py_str ''a_p'') [alpha, beta] = Inr [alpha]
   \<and> \<not> field_contains_like (py_str ''a_p'') (name alpha)
   \<and> \<not> field_contains_like (py_str ''a_p'') (info alpha)
   \<and> \<not> field_contains_like (py_str ''a_p'') (Some (ip alpha))"
proof -
  have "search_select ([37] @ py_str ''a_p'' @ [37]) [alpha, beta] = [alpha]"
    by (simp add: like_eval)
  then have "search_servers (py_str ''a_p'') [alpha, beta] = Inr [alpha]"
    by (simp only: search_servers_runs [OF sample_query_runs(3,4)])
  moreover have "\<not> field_contains_like (py_str ''a_p'') (name alpha)
     \<and> \<not> field_contains_like (py_str ''a_p'') (info alpha)
     \<and> \<not> field_contains_like (py_str ''a_p'') (Some (ip alpha))"
    by (simp add: like_eval)
  ultimately show ?thesis by blast
qed

text \<open>SQLite reads U+FFFE and U+FFFF as U+FFFD: the query U+FFFE finds a name that
  holds U+FFFF.\<close>

lemma like_match_noncharacter:
  "sql_like (Some (py_str ''srv'' @ [65535])) ([37] @ [65534] @ [37])
   \<and> \<not> contains [65534] (py_str ''srv'' @ [65535])"
  by (simp add: like_eval contains_def)

text \<open>
  C3, amended. Let the query \<open>q\<close> be without the characters \<open>%\<close>, \<open>_\<close> and NUL and
  without surrogates, and let the pattern \<open>%q%\<close> take at most 50000 octets in UTF-8.
  Then \<open>search_servers q\<close> returns, and returns exactly the rows of which the name, the
  info or the ip, read up to its first NUL, contains \<open>q\<close> as a substring under the
  comparison of \<open>LIKE\<close>: ASCII letters without regard to case, and U+FFFE and U+FFFF
  read as U+FFFD. A column that is \<open>NULL\<close> contains nothing.
\<close>

theorem search_servers_nocase:
  assumes "37 \<notin> set q" "95 \<notin> set q" "0 \<notin> set q"
    and "list_all encodable q" "length (utf8_enc q) + 2 \<le> 50000"
  shows "\<exists>rows. search_servers q d = Inr rows
           \<and> set rows =
               {r \<in> set d. field_contains_like q (name r) \<or> field_contains_like q (info r)
                            \<or> field_contains_like q (Some (ip r))}"
  by (simp add: search_servers_runs [OF assms(4,5)] search_select_def set_order_rows
        sql_like_contains [OF assms(1-3)] del: append.simps)

theorem search_servers_nocase_witness:
  "37 \<notin> set (py_str ''alpha'') \<and> 95 \<notin> set (py_str ''alpha'') \<and> 0 \<notin> set (py_str ''alpha'')
   \<and> list_all encodable (py_str ''alpha'')
   \<and> length (utf8_enc (py_str ''alpha'')) + 2 \<le> 50000
   \<and> (\<exists>rows. search_servers (py_str ''alpha'') [alpha, beta] = Inr rows \<and> set rows = {alpha})"
proof -
  have h: "37 \<notin> set (py_str ''alpha'')" "95 \<notin> set (py_str ''alpha'')"
    "0 \<notin> set (py_str ''alpha'')"
    by (simp_all add: py_str_def)
  have a: "field_contains_like (py_str ''alpha'') (name alpha)"
    by (simp add: like_eval)
  have b: "\<not> field_contains_like (py_str ''alpha'') (name beta)"
    "\<not> field_contains_like (py_str ''alpha'') (info beta)"
    "\<not> field_contains_like (py_str ''alpha'') (Some (ip beta))"
    by (simp_all add: like_eval)
  have "{r \<in> set [alpha, beta]. field_contains_like (py_str ''alpha'') (name r)
          \<or> field_contains_like (py_str ''alpha'') (info r)
          \<or> field_contains_like (py_str ''alpha'') (Some (ip r))} = {alpha}"
    using a b by auto
  with search_servers_nocase [OF h sample_query_runs(1,2), of "[alpha, beta]"]
    h sample_query_runs(1,2)
  show ?thesis by (simp only: simp_thms)
qed

section \<open>Properties of the protocol client\<close>

subsection \<open>Decoding what was encoded\<close>

text \<open>The decoder reads back every encodable code point from its encoding, whatever
  follows it; so a text survives \<open>encode\<close> followed by \<open>decode\<close>.\<close>

lemma utf8_dec_enc2:
  assumes "128 \<le> cp" "cp < 2048"
  shows "utf8_dec ((192 + cp div 64) # (128 + cp mod 64) # rest) = cp # utf8_dec rest"
proof -
  have a: "\<not> 192 + cp div 64 < 128" "\<not> 192 + cp div 64 < 194" "192 + cp div 64 < 224"
    using assms by linarith+
  have b: "is_cont (128 + cp mod 64)"
    unfolding is_cont_def by simp
  show ?thesis
    using a b by simp
qed

lemma lead3_range:
  assumes "2048 \<le> cp" "cp < 65536"
  shows "\<not> 224 + cp div 4096 < (128::nat)" "\<not> 224 + cp div 4096 < (194::nat)"
    "\<not> 224 + cp div 4096 < (224::nat)" "224 + cp div 4096 < (240::nat)"
    using assms by linarith+

lemma cont_octets3: "is_cont (128 + cp div 64 mod 64)" "is_cont (128 + cp mod 64)"
    unfolding is_cont_def by simp_all

lemma second3_not_overlong:
  assumes "2048 \<le> cp" "cp div 4096 = (0::nat)"
  shows "32 \<le> cp div 64 mod 64"
proof -
  have "cp < 4096" using assms(2) by (simp add: div_eq_0_iff)
  then have "cp div 64 < 64" by linarith
  moreover have "32 \<le> cp div 64" using assms(1) by linarith
  ultimately show ?thesis by simp
qed

lemma second3_not_surrogate:
  assumes "cp < 55296 \<or> 57344 \<le> cp" "cp div 4096 = (13::nat)"
  shows "cp div 64 mod 64 < 32"
proof -
  have "53248 \<le> cp" "cp < 57344" using assms(2) by linarith+
  then have c: "cp < 55296" using assms(1) by linarith
  have "cp div 64 = 13 * 64 + cp div 64 mod 64"
    using assms(2) div_mult2_eq [of cp 64 64] mult_div_mod_eq [of 64 "cp div 64"] by simp
  moreover have "cp div 64 < 864" using c by linarith
  ultimately show ?thesis by linarith
qed

lemma not_if_both: "(c \<Longrightarrow> \<not> p) \<Longrightarrow> (\<not> c \<Longrightarrow> \<not> q) \<Longrightarrow> \<not> (if c then p else q)"
  by (cases c) simp_all

lemma radix64_2: "d = a * 64 + b \<Longrightarrow> n = d * 64 + c \<Longrightarrow> a * 4096 + b * 64 + c = (n::nat)"
  by simp

lemma radix64_3:
  "e = a * 64 + b \<Longrightarrow> d = e * 64 + b' \<Longrightarrow> n = d * 64 + c
     \<Longrightarrow> a * 262144 + b * 4096 + b' * 64 + c = (n::nat)"
  by simp

lemma value3: "(224 + cp div 4096 - 224) * 4096 + (128 + cp div 64 mod 64 - 128) * 64
             + (128 + cp mod 64 - 128) = (cp::nat)"
proof -
  have "cp div 4096 = cp div 64 div 64" using div_mult2_eq [of cp 64 64] by simp
  then have "cp div 64 = cp div 4096 * 64 + cp div 64 mod 64"
    using div_mult_mod_eq [of "cp div 64" 64] by simp
  moreover have "cp = cp div 64 * 64 + cp mod 64" by simp
  ultimately have "cp div 4096 * 4096 + cp div 64 mod 64 * 64 + cp mod 64 = cp"
    by (rule radix64_2)
  then show ?thesis by simp
qed

lemma utf8_dec_enc3:
  assumes "2048 \<le> cp" "cp < 65536" "cp < 55296 \<or> 57344 \<le> cp"
  shows "utf8_dec ((224 + cp div 4096) # (128 + cp div 64 mod 64) # (128 + cp mod 64) # rest)
           = cp # utf8_dec rest"
proof -
  have r: "\<not> (if 128 + cp div 64 mod 64 < 160 then 224 + cp div 4096 = 224
               else 224 + cp div 4096 = 237)"
  proof (rule not_if_both)
    assume "128 + cp div 64 mod 64 < 160"
    then have x: "cp div 64 mod 64 < 32" by linarith
    show "224 + cp div 4096 \<noteq> 224"
    proof
      assume "224 + cp div 4096 = 224"
      then have "cp div 4096 = 0" by linarith
      from second3_not_overlong [OF assms(1) this] x show False by linarith
    qed
  next
    assume "\<not> 128 + cp div 64 mod 64 < 160"
    then have x: "32 \<le> cp div 64 mod 64" by linarith
    show "224 + cp div 4096 \<noteq> 237"
    proof
      assume "224 + cp div 4096 = 237"
      then have "cp div 4096 = 13" by linarith
      from second3_not_surrogate [OF assms(3) this] x show False by linarith
    qed
  qed
  show ?thesis
    using lead3_range [OF assms(1,2)] cont_octets3 [of cp] r value3 [of cp] by simp
qed

lemma lead4_range:
  assumes "65536 \<le> cp" "cp < 1114112"
  shows "\<not> 240 + cp div 262144 < (128::nat)" "\<not> 240 + cp div 262144 < (194::nat)"
    "\<not> 240 + cp div 262144 < (224::nat)" "\<not> 240 + cp div 262144 < (240::nat)"
    "240 + cp div 262144 < (245::nat)"
    using assms by linarith+

lemma cont_octet4: "is_cont (128 + cp div 4096 mod 64)"
  unfolding is_cont_def by simp

lemma second4_not_overlong:
  assumes "65536 \<le> cp" "cp div 262144 = (0::nat)"
  shows "16 \<le> cp div 4096 mod 64"
proof -
  have "cp < 262144" using assms(2) by (simp add: div_eq_0_iff)
  then have "cp div 4096 < 64" by linarith
  moreover have "16 \<le> cp div 4096" using assms(1) by linarith
  ultimately show ?thesis by simp
qed

lemma second4_in_range:
  assumes "cp < 1114112" "cp div 262144 = (4::nat)"
  shows "cp div 4096 mod 64 < 16"
proof -
  have "cp div 4096 div 64 = 4"
    using assms(2) div_mult2_eq [of cp 4096 64] by simp
  then have "cp div 4096 = 4 * 64 + cp div 4096 mod 64"
    using mult_div_mod_eq [of 64 "cp div 4096"] by simp
  moreover have "cp div 4096 < 272" using assms(1) by linarith
  ultimately show ?thesis by linarith
qed

lemma value4: "(240 + cp div 262144 - 240) * 262144 + (128 + cp div 4096 mod 64 - 128) * 4096
             + (128 + cp div 64 mod 64 - 128) * 64 + (128 + cp mod 64 - 128) = (cp::nat)"
proof -
  have "cp div 262144 = cp div 4096 div 64" using div_mult2_eq [of cp 4096 64] by simp
  then have e: "cp div 4096 = cp div 262144 * 64 + cp div 4096 mod 64"
    using div_mult_mod_eq [of "cp div 4096" 64] by simp
  have "cp div 4096 = cp div 64 div 64" using div_mult2_eq [of cp 64 64] by simp
  then have d: "cp div 64 = cp div 4096 * 64 + cp div 64 mod 64"
    using div_mult_mod_eq [of "cp div 64" 64] by simp
  have n: "cp = cp div 64 * 64 + cp mod 64" by simp
  have "cp div 262144 * 262144 + cp div 4096 mod 64 * 4096 + cp div 64 mod 64 * 64
          + cp mod 64 = cp"
    using e d n by (rule radix64_3)
  then show ?thesis by simp
qed

lemma utf8_dec_enc4:
  assumes "65536 \<le> cp" "cp < 1114112"
  shows "utf8_dec ((240 + cp div 262144) # (128 + cp div 4096 mod 64)
                   # (128 + cp div 64 mod 64) # (128 + cp mod 64) # rest)
           = cp # utf8_dec rest"
proof -
  have r: "\<not> (if 128 + cp div 4096 mod 64 < 144 then 240 + cp div 262144 = 240
               else 240 + cp div 262144 = 244)"
  proof (rule not_if_both)
    assume "128 + cp div 4096 mod 64 < 144"
    then have x: "cp div 4096 mod 64 < 16" by linarith
    show "240 + cp div 262144 \<noteq> 240"
    proof
      assume "240 + cp div 262144 = 240"
      then have "cp div 262144 = 0" by linarith
      from second4_not_overlong [OF assms(1) this] x show False by linarith
    qed
  next
    assume "\<not> 128 + cp div 4096 mod 64 < 144"
    then have x: "16 \<le> cp div 4096 mod 64" by linarith
    show "240 + cp div 262144 \<noteq> 244"
    proof
      assume "240 + cp div 262144 = 244"
      then have "cp div 262144 = 4" by linarith
      from second4_in_range [OF assms(2) this] x show False by linarith
    qed
  qed
  show ?thesis
    using lead4_range [OF assms] cont_octet4 [of cp] cont_octets3 [of cp] r value4 [of cp] by simp
qed

lemma utf8_dec_enc1:
  assumes "encodable cp"
  shows "utf8_dec (utf8_enc1 cp @ rest) = cp # utf8_dec rest"
proof -
  consider "cp < 128" | "128 \<le> cp" "cp < 2048" | "2048 \<le> cp" "cp < 65536"
    | "65536 \<le> cp" "cp < 1114112"
    using assms unfolding encodable_def by linarith
  then show ?thesis
  proof cases
    case 1
    then show ?thesis by (simp add: utf8_enc1_def)
  next
    case 2
    then show ?thesis using utf8_dec_enc2 [of cp rest] by (simp add: utf8_enc1_def)
  next
    case 3
    moreover have "cp < 55296 \<or> 57344 \<le> cp" using assms unfolding encodable_def by linarith
    ultimately show ?thesis using utf8_dec_enc3 [of cp rest] by (simp add: utf8_enc1_def)
  next
    case 4
    then show ?thesis using utf8_dec_enc4 [of cp rest] by (simp add: utf8_enc1_def)
  qed
qed

lemma utf8_dec_enc: "list_all encodable t \<Longrightarrow> utf8_dec (utf8_enc t) = t"
  by (induction t) (simp_all add: utf8_enc_def utf8_dec_enc1)

lemma utf8_enc1_octets: "encodable cp \<Longrightarrow> b \<in> set (utf8_enc1 cp) \<Longrightarrow> b < 256"
  unfolding utf8_enc1_def encodable_def
  by (auto split: if_splits)

lemma unat_octet: "unat (b :: byte) < 256"
  using unsigned_less [of b, where ?'a = nat] by simp

lemma unat_of_nat_octet: "n < 256 \<Longrightarrow> unat (of_nat n :: byte) = n"
  by (simp add: unat_of_nat)

lemma map_unat_of_nat:
  "(\<And>n. n \<in> set ns \<Longrightarrow> n < 256) \<Longrightarrow> map unat (map of_nat ns :: bytes) = ns"
  by (induction ns) (simp_all add: unat_of_nat_octet)

lemma utf8_enc_octets: "list_all encodable t \<Longrightarrow> n \<in> set (utf8_enc t) \<Longrightarrow> n < 256"
  by (induction t) (auto simp: utf8_enc_def dest: utf8_enc1_octets)

lemma decode_ignore_encode:
  assumes "encode t = Inr s"
  shows "decode_ignore s = t"
proof -
  have e: "list_all encodable t" and s: "s = map of_nat (utf8_enc t)"
    using assms by (auto simp: encode_def split: if_splits)
  have "map unat s = utf8_enc t"
    unfolding s using utf8_enc_octets [OF e] by (rule map_unat_of_nat)
  then show ?thesis by (simp add: decode_ignore_def utf8_dec_enc [OF e])
qed

subsection \<open>Encoding what was decoded\<close>

text \<open>Every code point the decoder yields is encodable, and its encoding is the very
  octets it was read from. So encoding the decoded text gives the input with some octets
  left out, in the same order: none is added, none is changed.\<close>

lemma utf8_enc_Cons: "utf8_enc (cp # t) = utf8_enc1 cp @ utf8_enc t"
  by (simp add: utf8_enc_def)

lemma radix_two:
  "b < 64 \<Longrightarrow> (a * 64 + b) div 64 = a \<and> (a * 64 + b) mod 64 = (b::nat)"
  by simp

lemma radix_three:
  assumes "b < 64" "d < 64"
  shows "(a * 4096 + b * 64 + d) div 4096 = a
         \<and> (a * 4096 + b * 64 + d) div 64 mod 64 = b
         \<and> (a * 4096 + b * 64 + d) mod 64 = (d::nat)"
proof -
  have e: "a * 4096 + b * 64 + d = (a * 64 + b) * 64 + d" by simp
  have q: "(a * 4096 + b * 64 + d) div 64 = a * 64 + b"
    unfolding e using radix_two [OF assms(2)] by blast
  have "(a * 4096 + b * 64 + d) div 4096 = (a * 4096 + b * 64 + d) div 64 div 64"
    using div_mult2_eq [of "a * 4096 + b * 64 + d" 64 64] by simp
  then have "(a * 4096 + b * 64 + d) div 4096 = a"
    unfolding q using radix_two [OF assms(1)] by simp
  moreover have "(a * 4096 + b * 64 + d) div 64 mod 64 = b"
    unfolding q using radix_two [OF assms(1)] by blast
  moreover have "(a * 4096 + b * 64 + d) mod 64 = d"
    unfolding e using radix_two [OF assms(2)] by blast
  ultimately show ?thesis by blast
qed

lemma radix_four:
  assumes "b < 64" "d < 64" "e < 64"
  shows "(a * 262144 + b * 4096 + d * 64 + e) div 262144 = a
         \<and> (a * 262144 + b * 4096 + d * 64 + e) div 4096 mod 64 = b
         \<and> (a * 262144 + b * 4096 + d * 64 + e) div 64 mod 64 = d
         \<and> (a * 262144 + b * 4096 + d * 64 + e) mod 64 = (e::nat)"
proof -
  let ?n = "a * 262144 + b * 4096 + d * 64 + e"
  have x: "?n = (a * 64 + b) * 4096 + d * 64 + e" by simp
  note r = radix_three [OF assms(2,3), of "a * 64 + b"]
  have q: "?n div 4096 = a * 64 + b" unfolding x using r by blast
  have "?n div 262144 = ?n div 4096 div 64"
    using div_mult2_eq [of ?n 4096 64] by simp
  then have "?n div 262144 = a"
    unfolding q using radix_two [OF assms(1)] by simp
  moreover have "?n div 4096 mod 64 = b"
    unfolding q using radix_two [OF assms(1)] by blast
  moreover have "?n div 64 mod 64 = d" unfolding x using r by blast
  moreover have "?n mod 64 = e" unfolding x using r by blast
  ultimately show ?thesis by blast
qed

lemma utf8_enc1_two:
  assumes "194 \<le> c" "c < 224" "is_cont b2"
  shows "utf8_enc1 ((c - 192) * 64 + (b2 - 128)) = [c, b2]
         \<and> encodable ((c - 192) * 64 + (b2 - 128))"
proof -
  define a where "a = c - 192"
  define b where "b = b2 - 128"
  have c: "192 + a = c" and b2: "128 + b = b2"
    using assms by (simp_all add: a_def b_def is_cont_def)
  have ab: "2 \<le> a" "a < 32" "b < 64"
    using assms unfolding a_def b_def is_cont_def by linarith+
  have r: "\<not> a * 64 + b < 128" "a * 64 + b < 2048"
    using ab by linarith+
  have "utf8_enc1 (a * 64 + b) = [c, b2]"
    using r radix_two [OF ab(3), of a] by (simp add: utf8_enc1_def c b2)
  moreover have "encodable (a * 64 + b)"
    using r by (simp add: encodable_def)
  ultimately show ?thesis by (simp only: a_def b_def)
qed

lemma utf8_enc1_three:
  assumes "224 \<le> c" "c < 240" "is_cont b2" "is_cont b3"
    and "\<not> (if b2 < 160 then c = 224 else c = 237)"
  shows "utf8_enc1 ((c - 224) * 4096 + (b2 - 128) * 64 + (b3 - 128)) = [c, b2, b3]
         \<and> encodable ((c - 224) * 4096 + (b2 - 128) * 64 + (b3 - 128))"
proof -
  define a where "a = c - 224"
  define b where "b = b2 - 128"
  define d where "d = b3 - 128"
  have c: "224 + a = c" and b2: "128 + b = b2" and b3: "128 + d = b3"
    using assms(1-4) by (simp_all add: a_def b_def d_def is_cont_def)
  have ab: "a < 16" "b < 64" "d < 64"
    using assms(1-4) unfolding a_def b_def d_def is_cont_def by linarith+
  have x: "a = 0 \<longrightarrow> 32 \<le> b" "a = 13 \<longrightarrow> b < 32"
    using assms(5) c b2 by (auto split: if_splits)
  let ?n = "a * 4096 + b * 64 + d"
  have lo: "\<not> ?n < 128" "\<not> ?n < 2048"
    using x(1) by (cases "a = 0"; linarith)+
  have hi: "?n < 65536" using ab by linarith
  have ns: "?n < 55296 \<or> 57344 \<le> ?n"
  proof -
    consider "a \<le> 12" | "a = 13" | "14 \<le> a" by linarith
    then show ?thesis
    proof cases
      case 1 then show ?thesis using ab by linarith
    next
      case 2 then show ?thesis using x(2) ab by linarith
    next
      case 3 then show ?thesis by linarith
    qed
  qed
  have "utf8_enc1 ?n = [c, b2, b3]"
    using lo hi radix_three [OF ab(2,3), of a] by (simp add: utf8_enc1_def c b2 b3)
  moreover have "encodable ?n"
    using ns hi by (simp add: encodable_def)
  ultimately show ?thesis by (simp only: a_def b_def d_def)
qed

lemma utf8_enc1_four:
  assumes "240 \<le> c" "c < 245" "is_cont b2" "is_cont b3" "is_cont b4"
    and "\<not> (if b2 < 144 then c = 240 else c = 244)"
  shows "utf8_enc1 ((c - 240) * 262144 + (b2 - 128) * 4096 + (b3 - 128) * 64 + (b4 - 128))
           = [c, b2, b3, b4]
         \<and> encodable ((c - 240) * 262144 + (b2 - 128) * 4096 + (b3 - 128) * 64 + (b4 - 128))"
proof -
  define a where "a = c - 240"
  define b where "b = b2 - 128"
  define d where "d = b3 - 128"
  define e where "e = b4 - 128"
  have c: "240 + a = c" and b2: "128 + b = b2" and b3: "128 + d = b3" and b4: "128 + e = b4"
    using assms(1-5) by (simp_all add: a_def b_def d_def e_def is_cont_def)
  have ab: "a < 5" "b < 64" "d < 64" "e < 64"
    using assms(1-5) unfolding a_def b_def d_def e_def is_cont_def by linarith+
  have x: "a = 0 \<longrightarrow> 16 \<le> b" "a = 4 \<longrightarrow> b < 16"
    using assms(6) c b2 by (auto split: if_splits)
  let ?n = "a * 262144 + b * 4096 + d * 64 + e"
  have lo: "\<not> ?n < 128" "\<not> ?n < 2048" "\<not> ?n < 65536"
    using x(1) by (cases "a = 0"; linarith)+
  have hi: "?n < 1114112"
  proof (cases "a = 4")
    case True then show ?thesis using x(2) ab by linarith
  next
    case False then show ?thesis using ab by linarith
  qed
  have "utf8_enc1 ?n = [c, b2, b3, b4]"
    using lo radix_four [OF ab(2,3,4), of a] by (simp add: utf8_enc1_def c b2 b3 b4)
  moreover have "encodable ?n"
    using lo hi by (simp add: encodable_def)
  ultimately show ?thesis by (simp only: a_def b_def d_def e_def)
qed

lemma utf8_dec_reencode:
  "subseq (utf8_enc (utf8_dec ns)) ns \<and> list_all encodable (utf8_dec ns)"
proof (induction ns rule: length_induct)
  case (1 ns)
  let ?P = "\<lambda>ns. subseq (utf8_enc (utf8_dec ns)) ns \<and> list_all encodable (utf8_dec ns)"
  have IH: "?P t" if "length t < length ns" for t
    using 1 that by blast
  have stop: "?P ns" if "utf8_dec ns = []"
    using that by (simp add: utf8_enc_def)
  have skip: "?P ns" if "ns = pre @ t" "pre \<noteq> []" "utf8_dec ns = utf8_dec t" for pre t
  proof -
    have "length t < length ns" using that(1,2) by simp
    from IH [OF this] show ?thesis
      unfolding that(3) unfolding that(1) by (simp add: subseq_drop_many)
  qed
  have emit: "?P ns"
    if "ns = pre @ t" "pre \<noteq> []" "utf8_dec ns = cp # utf8_dec t"
      "utf8_enc1 cp = pre \<and> encodable cp" for pre t cp
  proof -
    have "length t < length ns" using that(1,2) by simp
    from IH [OF this] show ?thesis
      unfolding that(3) unfolding that(1) using that(4)
      by (simp add: utf8_enc_Cons subseq_append')
  qed
  show ?case
  proof (cases ns)
    case Nil
    then show ?thesis by (simp add: utf8_enc_def)
  next
    case (Cons c bs)
    note step = utf8_dec.simps(2) [of c bs]
    consider (ascii) "c < 128" | (bad) "128 \<le> c" "c < 194 \<or> 245 \<le> c"
      | (two) "194 \<le> c" "c < 224" | (three) "224 \<le> c" "c < 240"
      | (four) "240 \<le> c" "c < 245"
      by linarith
    then show ?thesis
    proof cases
      case ascii
      have "utf8_dec ns = c # utf8_dec bs" using ascii Cons step by simp
      moreover have "utf8_enc1 c = [c] \<and> encodable c"
        using ascii by (simp add: utf8_enc1_def encodable_def)
      ultimately show ?thesis using emit [of "[c]" bs c] Cons by simp
    next
      case bad
      have "utf8_dec ns = utf8_dec bs" using bad Cons step by auto
      then show ?thesis using skip [of "[c]" bs] Cons by simp
    next
      case two
      show ?thesis
      proof (cases bs)
        case Nil
        then have "utf8_dec ns = []" using two Cons step by simp
        then show ?thesis by (rule stop)
      next
        case (Cons b2 r2)
        note bs = Cons
        show ?thesis
        proof (cases "is_cont b2")
          case False
          have "utf8_dec ns = utf8_dec bs"
            using two False \<open>ns = c # bs\<close> step bs by (auto simp del: utf8_dec.simps split: if_splits)
          then show ?thesis using skip [of "[c]" bs] \<open>ns = c # bs\<close> by simp
        next
          case True
          have "utf8_dec ns = ((c - 192) * 64 + (b2 - 128)) # utf8_dec r2"
            using two True \<open>ns = c # bs\<close> step bs by (auto simp del: utf8_dec.simps split: if_splits)
          then show ?thesis
            using emit [of "[c, b2]" r2] utf8_enc1_two [OF two True] \<open>ns = c # bs\<close> bs
            by simp
        qed
      qed
    next
      case three
      show ?thesis
      proof (cases bs)
        case Nil
        then have "utf8_dec ns = []" using three Cons step by simp
        then show ?thesis by (rule stop)
      next
        case (Cons b2 r2)
        note bs = Cons
        show ?thesis
        proof (cases "\<not> is_cont b2 \<or> (if b2 < 160 then c = 224 else c = 237)")
          case True
          have "utf8_dec ns = utf8_dec bs"
            using three True \<open>ns = c # bs\<close> step bs by (auto simp del: utf8_dec.simps split: if_splits)
          then show ?thesis using skip [of "[c]" bs] \<open>ns = c # bs\<close> by simp
        next
          case False
          then have ok: "is_cont b2" "\<not> (if b2 < 160 then c = 224 else c = 237)" by blast+
          show ?thesis
          proof (cases r2)
            case Nil
            then have "utf8_dec ns = []"
              using three False \<open>ns = c # bs\<close> step bs by (auto simp del: utf8_dec.simps split: if_splits)
            then show ?thesis by (rule stop)
          next
            case (Cons b3 r3)
            note r2 = Cons
            show ?thesis
            proof (cases "is_cont b3")
              case False
              have "utf8_dec ns = utf8_dec r2"
                using three ok False \<open>ns = c # bs\<close> step bs r2
                by (auto simp del: utf8_dec.simps split: if_splits)
              then show ?thesis
                using skip [of "[c, b2]" r2] \<open>ns = c # bs\<close> bs by simp
            next
              case True
              have "utf8_dec ns =
                  ((c - 224) * 4096 + (b2 - 128) * 64 + (b3 - 128)) # utf8_dec r3"
                using three ok True \<open>ns = c # bs\<close> step bs r2
                by (auto simp del: utf8_dec.simps split: if_splits)
              then show ?thesis
                using emit [of "[c, b2, b3]" r3]
                  utf8_enc1_three [OF three ok(1) True ok(2)] \<open>ns = c # bs\<close> bs r2
                by simp
            qed
          qed
        qed
      qed
    next
      case four
      show ?thesis
      proof (cases bs)
        case Nil
        then have "utf8_dec ns = []" using four Cons step by simp
        then show ?thesis by (rule stop)
      next
        case (Cons b2 r2)
        note bs = Cons
        show ?thesis
        proof (cases "\<not> is_cont b2 \<or> (if b2 < 144 then c = 240 else c = 244)")
          case True
          have "utf8_dec ns = utf8_dec bs"
            using four True \<open>ns = c # bs\<close> step bs by (auto simp del: utf8_dec.simps split: if_splits)
          then show ?thesis using skip [of "[c]" bs] \<open>ns = c # bs\<close> by simp
        next
          case False
          then have ok: "is_cont b2" "\<not> (if b2 < 144 then c = 240 else c = 244)" by blast+
          show ?thesis
          proof (cases r2)
            case Nil
            then have "utf8_dec ns = []"
              using four False \<open>ns = c # bs\<close> step bs by (auto simp del: utf8_dec.simps split: if_splits)
            then show ?thesis by (rule stop)
          next
            case (Cons b3 r3)
            note r2 = Cons
            show ?thesis
            proof (cases "is_cont b3")
              case False
              have "utf8_dec ns = utf8_dec r2"
                using four ok False \<open>ns = c # bs\<close> step bs r2
                by (auto simp del: utf8_dec.simps split: if_splits)
              then show ?thesis
                using skip [of "[c, b2]" r2] \<open>ns = c # bs\<close> bs by simp
            next
              case True
              note c3 = True
              show ?thesis
              proof (cases r3)
                case Nil
                then have "utf8_dec ns = []"
                  using four ok c3 \<open>ns = c # bs\<close> step bs r2
                  by (auto simp del: utf8_dec.simps split: if_splits)
                then show ?thesis by (rule stop)
              next
                case (Cons b4 r4)
                note r3 = Cons
                show ?thesis
                proof (cases "is_cont b4")
                  case False
                  have "utf8_dec ns = utf8_dec r3"
                    using four ok c3 False \<open>ns = c # bs\<close> step bs r2 r3
                    by (auto simp del: utf8_dec.simps split: if_splits)
                  then show ?thesis
                    using skip [of "[c, b2, b3]" r3] \<open>ns = c # bs\<close> bs r2 by simp
                next
                  case True
                  have "utf8_dec ns =
                      ((c - 240) * 262144 + (b2 - 128) * 4096 + (b3 - 128) * 64 + (b4 - 128))
                        # utf8_dec r4"
                    using four ok c3 True \<open>ns = c # bs\<close> step bs r2 r3
                    by (auto simp del: utf8_dec.simps split: if_splits)
                  then show ?thesis
                    using emit [of "[c, b2, b3, b4]" r4]
                      utf8_enc1_four [OF four ok(1) c3 True ok(2)]
                      \<open>ns = c # bs\<close> bs r2 r3
                    by simp
                qed
              qed
            qed
          qed
        qed
      qed
    qed
  qed
qed

lemma map_of_nat_unat: "map of_nat (map unat s) = (s :: bytes)"
  by (induction s) simp_all

lemma encode_decode_ignore_subseq:
  "\<exists>e. encode (decode_ignore s) = Inr e \<and> subseq e s"
proof -
  let ?e = "utf8_enc (utf8_dec (map unat s))"
  have r: "subseq ?e (map unat s)" "list_all encodable (utf8_dec (map unat s))"
    using utf8_dec_reencode [of "map unat s"] by blast+
  have "subseq (map of_nat ?e :: bytes) (map of_nat (map unat s))"
    using r(1) by (rule subseq_map)
  then have "subseq (map of_nat ?e) s"
    by (simp only: map_of_nat_unat)
  moreover have "encode (decode_ignore s) = Inr (map of_nat ?e)"
    using r(2) by (simp add: encode_def decode_ignore_def)
  ultimately show ?thesis by blast
qed

subsection \<open>Packing what was unpacked\<close>

lemma le_bytes_le_nat: "le_bytes (length bs) (le_nat bs) = bs"
proof (induction bs)
  case Nil
  show ?case by simp
next
  case (Cons b bs)
  have "(unat b + 256 * le_nat bs) mod 256 = unat b"
    using unat_octet [of b] by simp
  moreover have "(unat b + 256 * le_nat bs) div 256 = le_nat bs"
    using unat_octet [of b] by simp
  ultimately show ?case using Cons by simp
qed

lemma le_nat_bound: "le_nat bs < 256 ^ length bs"
proof (induction bs)
  case Nil
  show ?case by simp
next
  case (Cons b bs)
  have "unat b + 256 * le_nat bs < 256 + 256 * le_nat bs"
    using unat_octet [of b] by simp
  also have "\<dots> = 256 * (le_nat bs + 1)" by simp
  also have "\<dots> \<le> 256 * 256 ^ length bs"
    using Cons by (simp only: mult_le_cancel1) simp
  finally show ?case by simp
qed

lemma pack_I_le_nat: "length v = 4 \<Longrightarrow> pack_I (le_nat v) = Inr v"
  using le_nat_bound [of v] le_bytes_le_nat [of v] by (simp add: pack_I_def)

lemma length_le_bytes: "length (le_bytes n v) = n"
  by (induction n arbitrary: v) simp_all

subsection \<open>Reading from the stream\<close>

text \<open>When the chunks still to come hold enough octets, \<open>recv_exact\<close> returns: it yields
  the next octets of the stream however they are split into chunks, and leaves the rest
  of the stream.\<close>

lemma recv_exact_stream:
  assumes "[] \<notin> set s" "n \<le> int (length buf) + int (length (concat s))"
  shows "\<exists>s'. recv_exact s n buf = Inr (buf @ take (nat (n - int (length buf))) (concat s), s')
              \<and> [] \<notin> set s'
              \<and> concat s' = drop (nat (n - int (length buf))) (concat s)"
  using assms
proof (induction s n buf rule: recv_exact.induct)
  case (1 s n buf)
  show ?case
  proof (cases "int (length buf) < n")
    case False
    then show ?thesis using "1.prems" by (subst recv_exact.simps) simp
  next
    case True
    define k where "k = nat (n - int (length buf))"
    have k: "0 < k" using True by (simp add: k_def)
    obtain c cs where s: "s = c # cs"
      using True "1.prems" by (cases s) auto
    have c: "c \<noteq> []" using "1.prems"(1) s by auto
    define chunk where "chunk = fst (recv s k)"
    define s1 where "s1 = snd (recv s k)"
    have chunk: "chunk = take k c" and chunk_ne: "chunk \<noteq> []"
      and s1: "concat s1 = drop k c @ concat cs" and s1_ne: "[] \<notin> set s1"
      using c k "1.prems"(1) s by (auto simp: chunk_def s1_def recv_def)
    have len: "length chunk = min k (length c)" by (simp add: chunk)
    have pre: "n \<le> int (length (buf @ chunk)) + int (length (concat s1))"
      using "1.prems"(2) s by (simp add: s1 len)
    from "1.IH" [OF True chunk_ne [unfolded chunk_def k_def]
        s1_ne [unfolded s1_def k_def] pre [unfolded chunk_def s1_def k_def]]
    obtain s' where r: "recv_exact s1 n (buf @ chunk) =
          Inr ((buf @ chunk) @ take (nat (n - int (length (buf @ chunk)))) (concat s1), s')"
      and ne: "[] \<notin> set s'"
      and rest: "concat s' = drop (nat (n - int (length (buf @ chunk)))) (concat s1)"
      unfolding chunk_def s1_def k_def by blast
    have k': "nat (n - int (length (buf @ chunk))) = k - length chunk"
      by (simp add: k_def)
    have t: "chunk @ take (k - length chunk) (concat s1) = take k (concat s)"
      by (simp add: s chunk s1 len min_def)
    have d: "drop (k - length chunk) (concat s1) = drop k (concat s)"
      by (simp add: s chunk s1 len min_def)
    have step: "recv_exact s n buf = recv_exact s1 n (buf @ chunk)"
      using True chunk_ne by (subst recv_exact.simps) (simp add: chunk_def s1_def k_def)
    have e: "recv_exact s n buf = Inr (buf @ take k (concat s), s')"
      using step r [unfolded k'] t by (simp only: append_assoc)
    have f: "concat s' = drop k (concat s)"
      using rest [unfolded k'] d by (simp only:)
    show ?thesis
      unfolding k_def [symmetric] using e f ne by blast
  qed
qed

lemma recv_exact_next:
  assumes "[] \<notin> set s" "k \<le> length (concat s)"
  shows "\<exists>s'. recv_exact s (int k) [] = Inr (take k (concat s), s')
              \<and> [] \<notin> set s' \<and> concat s' = drop k (concat s)"
  using recv_exact_stream [OF assms(1), of "int k" "[]"] assms(2) by simp

lemma recv_packet_frame:
  assumes "[] \<notin> set s" "concat s = frame @ rest" "4 \<le> length frame"
    and "le_nat (take 4 frame) = length frame"
  shows "\<exists>s'. recv_packet s = Inr (frame, s') \<and> [] \<notin> set s' \<and> concat s' = rest"
proof -
  have "4 \<le> length (concat s)"
    using assms(2,3) by simp
  from recv_exact_next [OF assms(1) this]
  obtain s1 where h: "recv_exact s (int 4) [] = Inr (take 4 (concat s), s1)"
    and n1: "[] \<notin> set s1" and c1: "concat s1 = drop 4 (concat s)"
    by blast
  have t1: "take 4 (concat s) = take 4 frame" and d1: "drop 4 (concat s) = drop 4 frame @ rest"
    using assms(3) by (simp_all add: assms(2))
  have u: "unpack_I (take 4 frame) = Inr (length frame)"
    using assms(3,4) by (simp add: unpack_I_def)
  have "length frame - 4 \<le> length (concat s1)"
    by (simp add: c1 d1)
  from recv_exact_next [OF n1 this]
  obtain s2 where b: "recv_exact s1 (int (length frame - 4)) [] =
        Inr (take (length frame - 4) (concat s1), s2)"
    and n2: "[] \<notin> set s2" and c2: "concat s2 = drop (length frame - 4) (concat s1)"
    by blast
  have t2: "take (length frame - 4) (concat s1) = drop 4 frame"
    and d2: "drop (length frame - 4) (concat s1) = rest"
    by (simp_all add: c1 d1)
  have i: "int (length frame) - 4 = int (length frame - 4)"
    using assms(3) by simp
  have "recv_packet s = Inr (take 4 frame @ drop 4 frame, s2)"
    using h b by (simp add: recv_packet_def t1 t2 u i)
  then show ?thesis using n2 c2 d2 by simp
qed

lemma parse_whats_up_frame:
  assumes "length hdr = 4" "length ver = 4"
  shows "parse_whats_up (hdr @ [NET_SVM_WHATS_UP, flags] @ ver @ s)
           = Inr (flags, le_nat ver, decode_ignore s)"
  using assms by (simp add: parse_whats_up_def unpack_from_def)

lemma parse_whats_up_wrong_type:
  assumes "4 < length pkt" "pkt ! 4 \<noteq> NET_SVM_WHATS_UP"
  shows "parse_whats_up pkt = Inl (ValueError ''Expected WHATS_UP'')"
  using assms by (simp add: parse_whats_up_def Let_def)

lemma encode_LISTING_USERNAME:
  "encode LISTING_USERNAME = Inr [95, 95, 100, 115, 115, 108, 105, 115, 116]"
  by (simp add: encode_def LISTING_USERNAME_def py_str_def utf8_enc_def utf8_enc1_def
        encodable_def)

lemma encode_decode_ignore:
  assumes "encode t = Inr s"
  shows "encode (decode_ignore s) = Inr s"
  unfolding decode_ignore_encode [OF assms] by (rule assms)

lemma length_le_bytes4: "length (le_bytes 4 v) = 4"
  by (rule length_le_bytes)

lemma build_listing_request_encoded:
  assumes "length ver = 4" "encode t = Inr e"
  shows "build_listing_request (le_nat ver) t =
           (if length e + 20 < 2 ^ 32
            then Inr (le_bytes 4 (length e + 20) @ [NET_MSG_LISTING] @ ver @ e @ [0] @ [1]
                      @ [95, 95, 100, 115, 115, 108, 105, 115, 116])
            else Inl StructError)"
proof -
  have p: "pack_I (20 + length e) =
      (if length e + 20 < 2 ^ 32 then Inr (le_bytes 4 (length e + 20)) else Inl StructError)"
    by (simp add: pack_I_def add.commute)
  show ?thesis
    using assms(1) p
    by (simp add: build_listing_request_def pack_I_le_nat [OF assms(1)] assms(2)
          encode_LISTING_USERNAME)
qed

subsection \<open>Sample runs\<close>

lemma le_bytes_4:
  "le_bytes 4 v = [of_nat (v mod 256), of_nat (v div 256 mod 256),
                   of_nat (v div 256 div 256 mod 256), of_nat (v div 256 div 256 div 256 mod 256)]"
proof -
  have "(4::nat) = Suc (Suc (Suc (Suc 0)))" by simp
  then show ?thesis by (simp only: le_bytes.simps)
qed

lemma sample_encode:
  "encode [49, 46, 48] = Inr [49, 46, 48]" "encode [49] = Inr [49]"
  by (simp_all add: encode_def utf8_enc_def utf8_enc1_def encodable_def)

lemma sample_request:
  "build_listing_request 3 [49, 46, 48] =
     Inr [23, 0, 0, 0, 0, 3, 0, 0, 0, 49, 46, 48, 0, 1,
          95, 95, 100, 115, 115, 108, 105, 115, 116]"
  by (simp add: build_listing_request_def pack_I_def le_bytes_4 encode_LISTING_USERNAME
        sample_encode NET_MSG_LISTING_def)

lemma sample_request_ff:
  "build_listing_request 3 [49] =
     Inr [21, 0, 0, 0, 0, 3, 0, 0, 0, 49, 0, 1, 95, 95, 100, 115, 115, 108, 105, 115, 116]"
  by (simp add: build_listing_request_def pack_I_def le_bytes_4 encode_LISTING_USERNAME
        sample_encode NET_MSG_LISTING_def)

lemma sample_greeting:
  "recv_packet [greeting, response_type0] = Inr (greeting, [response_type0])"
  "parse_whats_up greeting = Inr (0, 3, [49, 46, 48])"
  by code_simp+

lemma sample_greeting_ff:
  "recv_packet [greeting_ff, response_type0] = Inr (greeting_ff, [response_type0])"
  "parse_whats_up greeting_ff = Inr (0, 3, [49])"
  by code_simp+

lemma sample_response:
  "recv_packet [response_type0] = Inr (response_type0, [])"
  "parse_list_server response_type0 = Inr snapshot"
  by code_simp+

subsection \<open>The message-type octets\<close>

text \<open>A greeting whose message type is not \<open>NET_SVM_WHATS_UP\<close> makes \<open>query_dss\<close>
  raise \<open>ValueError("Expected WHATS_UP")\<close> before anything is sent.\<close>

lemma query_dss_wrong_greeting:
  assumes "[] \<notin> set chunks" "concat chunks = frame @ rest" "4 < length frame"
    and "le_nat (take 4 frame) = length frame" "frame ! 4 \<noteq> NET_SVM_WHATS_UP"
  shows "query_dss (Inr chunks) tls = (Inl (ValueError ''Expected WHATS_UP''), [])"
proof -
  have "4 \<le> length frame" using assms(3) by simp
  from recv_packet_frame [OF assms(1,2) this assms(4)]
  obtain s' where "recv_packet chunks = Inr (frame, s')" by blast
  then show ?thesis
    by (simp add: query_dss_def parse_whats_up_wrong_type [OF assms(3,5)])
qed

text \<open>The parser of the response does not look at the message type: whatever octet 4 of
  the packet is, the result is the same.\<close>

lemma parse_list_server_type_unread:
  "length hdr = 4 \<Longrightarrow> parse_list_server (hdr @ ty # body) = parse_list_server (hdr @ ty' # body)"
  by (simp add: parse_list_server_def)

text \<open>
  C5. The claim: a greeting or a listing response whose message-type octet is not the
  expected constant makes \<open>query_dss\<close> fail with a protocol error. For the greeting
  that is \<open>query_dss_wrong_greeting\<close>. For the response it fails: the stream below
  carries a well-formed greeting and a response of type 0, where \<open>NET_SVM_LIST_SERVER\<close>
  is 2, and \<open>query_dss\<close> returns the listing.
\<close>

theorem query_dss_response_type_unchecked:
  "response_type0 ! 4 = 0 \<and> NET_SVM_LIST_SERVER = 2
   \<and> query_dss (Inr [greeting, response_type0]) (Inl OSError) =
       (Inr snapshot,
        [[23, 0, 0, 0, 0, 3, 0, 0, 0, 49, 46, 48, 0, 1,
          95, 95, 100, 115, 115, 108, 105, 115, 116]])"
proof (intro conjI)
  show "response_type0 ! 4 = 0"
    by (simp add: response_type0_def)
  show "NET_SVM_LIST_SERVER = 2"
    by (simp add: NET_SVM_LIST_SERVER_def)
  show "query_dss (Inr [greeting, response_type0]) (Inl OSError) =
       (Inr snapshot,
        [[23, 0, 0, 0, 0, 3, 0, 0, 0, 49, 46, 48, 0, 1,
          95, 95, 100, 115, 115, 108, 105, 115, 116]])"
    by (simp add: query_dss_def sample_greeting sample_request sample_response
          NET_SI_USE_SSL_def)
qed

subsection \<open>The echo in the listing request\<close>

text \<open>
  C8, as stated: the request repeats the network version of the greeting octet for
  octet, also when it is not UTF-8. The code decodes the octets with
  \<open>errors="ignore"\<close> and encodes the text again, so octets that are not part of
  well-formed UTF-8 are lost: after a greeting with the network version \<open>FF 31\<close> the
  request carries \<open>31 00\<close> and nowhere \<open>FF 31 00\<close>.
\<close>

theorem query_dss_echo_counterexample:
  "drop 10 greeting_ff = [255, 49]
   \<and> snd (query_dss (Inr [greeting_ff, response_type0]) (Inl OSError)) =
       [[21, 0, 0, 0, 0, 3, 0, 0, 0, 49, 0, 1, 95, 95, 100, 115, 115, 108, 105, 115, 116]]
   \<and> \<not> contains ([255, 49] @ [0])
         [21, 0, 0, 0, 0, 3, 0, 0, 0, 49, 0, 1, 95, 95, 100, 115, 115, 108, 105, 115, 116 :: byte]"
proof (intro conjI)
  show "drop 10 greeting_ff = [255, 49]"
    by (simp add: greeting_ff_def)
  show "snd (query_dss (Inr [greeting_ff, response_type0]) (Inl OSError)) =
       [[21, 0, 0, 0, 0, 3, 0, 0, 0, 49, 0, 1, 95, 95, 100, 115, 115, 108, 105, 115, 116]]"
    by (simp add: query_dss_def sample_greeting_ff sample_request_ff sample_response
          NET_SI_USE_SSL_def)
  show "\<not> contains ([255, 49] @ [0])
         [21, 0, 0, 0, 0, 3, 0, 0, 0, 49, 0, 1, 95, 95, 100, 115, 115, 108, 105, 115, 116 :: byte]"
    by (simp add: contains_def)
qed

text \<open>
  C8, amended. Let the stream begin with a greeting frame of type \<open>NET_SVM_WHATS_UP\<close>
  with any flags, the four version octets \<open>ver\<close> and any network version \<open>s\<close>,
  delivered in any chunks. The text decoded from \<open>s\<close> can be encoded again; let \<open>e\<close>
  be its encoding. Then \<open>e\<close> is \<open>s\<close> with some octets left out (none added or
  changed, the order kept), and \<open>e\<close> is \<open>s\<close> itself exactly when \<open>s\<close> is well-formed
  UTF-8, that is the encoding of some text. \<open>query_dss\<close> sends nothing when the
  greeting asks for TLS and the upgrade fails, and nothing when the request would take
  \<open>2^32\<close> octets or more; otherwise it sends exactly one message: the length,
  \<open>NET_MSG_LISTING\<close>, the same four octets \<open>ver\<close>, the octets \<open>e\<close>, one NUL, the
  octet 1 and the listing user name.
\<close>

theorem query_dss_echo:
  assumes "length hdr = 4" "length ver = 4"
    and "le_nat hdr = length (hdr @ [NET_SVM_WHATS_UP, flags] @ ver @ s)"
    and "[] \<notin> set chunks"
    and "concat chunks = (hdr @ [NET_SVM_WHATS_UP, flags] @ ver @ s) @ rest"
  shows "\<exists>e. encode (decode_ignore s) = Inr e \<and> subseq e s
             \<and> (e = s \<longleftrightarrow> (\<exists>t. encode t = Inr s))
             \<and> snd (query_dss (Inr chunks) tls) =
                 (if flags AND NET_SI_USE_SSL \<noteq> 0 \<and> isl tls then []
                  else if 2 ^ 32 \<le> length e + 20 then []
                  else [le_bytes 4 (length e + 20) @ [NET_MSG_LISTING] @ ver @ e @ [0] @ [1]
                        @ [95, 95, 100, 115, 115, 108, 105, 115, 116]])"
proof -
  let ?frame = "hdr @ [NET_SVM_WHATS_UP, flags] @ ver @ s"
  let ?request = "\<lambda>e. le_bytes 4 (length e + 20) @ [NET_MSG_LISTING] @ ver @ e @ [0] @ [1]
                        @ [95, 95, 100, 115, 115, 108, 105, 115, 116]"
  have l: "4 \<le> length ?frame" using assms(1) by simp
  have h: "le_nat (take 4 ?frame) = length ?frame" using assms(1,3) by simp
  from recv_packet_frame [OF assms(4,5) l h]
  obtain s1 where r: "recv_packet chunks = Inr (?frame, s1)" by blast
  note p = parse_whats_up_frame [OF assms(1,2), of flags s]
  obtain e where e: "encode (decode_ignore s) = Inr e" and sub: "subseq e s"
    using encode_decode_ignore_subseq [of s] by blast
  note b = build_listing_request_encoded [OF assms(2) e]
  have exact: "e = s \<longleftrightarrow> (\<exists>t. encode t = Inr s)"
  proof
    assume "e = s"
    then show "\<exists>t. encode t = Inr s" using e by blast
  next
    assume "\<exists>t. encode t = Inr s"
    then obtain t where "encode t = Inr s" by blast
    from encode_decode_ignore [OF this] e show "e = s" by simp
  qed
  have sent: "snd (query_dss (Inr chunks) tls) =
      (if flags AND NET_SI_USE_SSL \<noteq> 0 \<and> isl tls then []
       else if 2 ^ 32 \<le> length e + 20 then [] else [?request e])"
  proof (cases "flags AND NET_SI_USE_SSL \<noteq> 0 \<and> isl tls")
    case True
    then obtain x where "tls = Inl x" by (cases tls) auto
    then have c: "(if flags AND NET_SI_USE_SSL \<noteq> 0 then tls else Inr s1) = Inl x"
      using True by simp
    show ?thesis
      unfolding query_dss_def
      by (simp only: r p c if_P [OF True] sum.case prod.case snd_conv)
  next
    case False
    then have "\<exists>s2. (if flags AND NET_SI_USE_SSL \<noteq> 0 then tls else Inr s1) = Inr s2"
      by (cases tls) simp_all
    then obtain s2 where c: "(if flags AND NET_SI_USE_SSL \<noteq> 0 then tls else Inr s1) = Inr s2"
      by blast
    show ?thesis
    proof (cases "length e + 20 < 2 ^ 32")
      case True
      then have n: "\<not> 2 ^ 32 \<le> length e + 20" by simp
      show ?thesis
        unfolding query_dss_def
        by (simp only: r p b c True False n sum.case prod.case snd_conv if_True if_False)
    next
      case big: False
      then have n: "2 ^ 32 \<le> length e + 20" by simp
      show ?thesis
        unfolding query_dss_def
        by (simp only: r p b c big False n sum.case prod.case snd_conv if_True if_False)
    qed
  qed
  from e sub exact sent show ?thesis by blast
qed

theorem query_dss_echo_witness:
  "encode (decode_ignore [255, 49]) = Inr [49] \<and> subseq [49] [255, 49 :: byte]
   \<and> \<not> (\<exists>t. encode t = Inr [255, 49])
   \<and> snd (query_dss (Inr [[12, 0, 0, 0, 1, 1], [3, 0, 0, 0, 255, 49]])
            (Inr [response_type0])) =
       [[21, 0, 0, 0, 0, 3, 0, 0, 0, 49, 0, 1, 95, 95, 100, 115, 115, 108, 105, 115, 116]]"
proof -
  have d: "encode (decode_ignore [255, 49]) = Inr [49]"
    by (simp add: decode_ignore_def encode_def utf8_enc_def utf8_enc1_def encodable_def)
  have t: "\<not> isl (Inr [response_type0] :: exn + sock)"
    by simp
  from query_dss_echo [of "[12, 0, 0, 0]" "[3, 0, 0, 0]" 1 "[255, 49]"
      "[[12, 0, 0, 0, 1, 1], [3, 0, 0, 0, 255, 49]]" "[]" "Inr [response_type0]"]
  obtain e where w: "encode (decode_ignore [255, 49]) = Inr e" "subseq e [255, 49 :: byte]"
      "e = [255, 49] \<longleftrightarrow> (\<exists>t. encode t = Inr [255, 49])"
      "snd (query_dss (Inr [[12, 0, 0, 0, 1, 1], [3, 0, 0, 0, 255, 49]])
            (Inr [response_type0])) =
       (if (1::byte) AND NET_SI_USE_SSL \<noteq> 0 \<and> isl (Inr [response_type0] :: exn + sock) then []
        else if 2 ^ 32 \<le> length e + 20 then []
        else [le_bytes 4 (length e + 20) @ [NET_MSG_LISTING] @ [3, 0, 0, 0] @ e @ [0] @ [1]
              @ [95, 95, 100, 115, 115, 108, 105, 115, 116]])"
    by (auto simp: NET_SVM_WHATS_UP_def)
  have e: "e = [49]" using w(1) d by simp
  show ?thesis
    using w(2-4) d unfolding e by (simp add: NET_MSG_LISTING_def le_bytes_4)
qed

end
